theory Spec2Isabelle
  imports Complex_Main
begin

section \<open>Genetic Dots: the evolutionary core of main.py\<close>

text \<open>
  The model follows \<^verbatim>\<open>src/main.py\<close>. Numbers that are floats in the program are
  real numbers here, so every arithmetic fact below is a fact of exact arithmetic.
  Random draws are inputs: \<^verbatim>\<open>gauss(0, 1)\<close> pairs and the values of \<^verbatim>\<open>random()\<close>
  behind \<^verbatim>\<open>uniform\<close> are passed in as functions of the loop index. A division by
  zero is a value of the type \<open>error\<close>, and the model does not follow a run past it.
  Drawing, printing and timing are left out.
\<close>

subsection \<open>Configuration\<close>

type_synonym vec = "real \<times> real"

definition mutation_rate :: real where
  "mutation_rate = 0.01"

definition dot_max_velocity :: real where
  "dot_max_velocity = 15"

definition height :: real where
  "height = 800"

definition width :: real where
  "width = 1600"

text \<open>A rectangle is the tuple (left, top, width, height) of the program.\<close>

definition rect_1 :: "real \<times> real \<times> real \<times> real" where
  "rect_1 = (0, 200, width / 2.5, 50)"

definition rect_2 :: "real \<times> real \<times> real \<times> real" where
  "rect_2 = (width / 2, 500, width, 50)"

definition goal :: vec where
  "goal = (20, width / 2)"

text \<open>
  \<open>DivideByZero\<close> is numpy's division of a float by 0.0 (a warning, and nan or inf as
  the value); the others are the Python exceptions of the same names.
\<close>

datatype error = DivideByZero | ZeroDivisionError | IndexError | AttributeError

text \<open>\<^verbatim>\<open>(v**2).sum()**0.5\<close> and \<^verbatim>\<open>np.linalg.norm(v)\<close>.\<close>

definition magnitude :: "vec \<Rightarrow> real" where
  "magnitude v = sqrt ((fst v)\<^sup>2 + (snd v)\<^sup>2)"

definition vadd :: "vec \<Rightarrow> vec \<Rightarrow> vec" where
  "vadd a b = (fst a + fst b, snd a + snd b)"

definition vsub :: "vec \<Rightarrow> vec \<Rightarrow> vec" where
  "vsub a b = (fst a - fst b, snd a - snd b)"

text \<open>\<^verbatim>\<open>random.uniform(a, b)\<close> is \<^verbatim>\<open>a + (b - a) * random()\<close>; \<open>u\<close> is the value of
  \<^verbatim>\<open>random()\<close>, a number in the interval from 0 (included) to 1 (excluded).\<close>

definition uniform :: "real \<Rightarrow> real \<Rightarrow> real \<Rightarrow> real" where
  "uniform a b u = a + (b - a) * u"

subsection \<open>Brain\<close>

record brain =
  directions :: "vec list"
  step :: nat

text \<open>The three lines that draw a vector, take its magnitude and divide by it.
  There is no test of the magnitude in the program.\<close>

definition unit_vector :: "real \<times> real \<Rightarrow> error + vec" where
  "unit_vector g =
     (let mag = magnitude g
      in if mag = 0 then Inl DivideByZero else Inr (fst g / mag, snd g / mag))"

text \<open>\<^verbatim>\<open>Brain.randomize\<close>: \<open>gs i\<close> is the pair of gauss draws of iteration \<open>i\<close>.\<close>

fun randomize_loop :: "nat list \<Rightarrow> vec list \<Rightarrow> (nat \<Rightarrow> real \<times> real) \<Rightarrow> error + vec list" where
  "randomize_loop [] ds gs = Inr ds"
| "randomize_loop (i # is) ds gs =
     (case unit_vector (gs i) of
        Inl e \<Rightarrow> Inl e
      | Inr v \<Rightarrow> randomize_loop is (ds[i := v]) gs)"

definition randomize :: "brain \<Rightarrow> (nat \<Rightarrow> real \<times> real) \<Rightarrow> error + brain" where
  "randomize b gs =
     (case randomize_loop [0..<length (directions b)] (directions b) gs of
        Inl e \<Rightarrow> Inl e
      | Inr ds \<Rightarrow> Inr (b\<lparr>directions := ds\<rparr>))"

definition Brain_init :: "nat \<Rightarrow> (nat \<Rightarrow> real \<times> real) \<Rightarrow> error + brain" where
  "Brain_init n gs = randomize \<lparr>directions = replicate n (0, 0), step = 0\<rparr> gs"

text \<open>\<^verbatim>\<open>Brain.clone\<close>: the random vectors of the new brain are all overwritten by
  \<^verbatim>\<open>np.copyto\<close>, so its draws do not show in the result; the step counter is 0.\<close>

definition clone :: "brain \<Rightarrow> brain" where
  "clone b = \<lparr>directions = directions b, step = 0\<rparr>"

text \<open>\<^verbatim>\<open>Brain.mutate\<close>: \<open>rs i\<close> holds, for iteration \<open>i\<close>, the value of
  \<^verbatim>\<open>uniform(0, 1)\<close> and the pair of gauss draws used when the gene is replaced.\<close>

fun mutate_loop :: "nat list \<Rightarrow> vec list \<Rightarrow> (nat \<Rightarrow> real \<times> real \<times> real) \<Rightarrow> error + vec list" where
  "mutate_loop [] ds rs = Inr ds"
| "mutate_loop (i # is) ds rs =
     (let rand = uniform 0 1 (fst (rs i))
      in if rand < mutation_rate then
           (case unit_vector (snd (rs i)) of
              Inl e \<Rightarrow> Inl e
            | Inr v \<Rightarrow> mutate_loop is (ds[i := v]) rs)
         else mutate_loop is ds rs)"

definition mutate :: "brain \<Rightarrow> (nat \<Rightarrow> real \<times> real \<times> real) \<Rightarrow> error + brain" where
  "mutate b rs =
     (case mutate_loop [0..<length (directions b)] (directions b) rs of
        Inl e \<Rightarrow> Inl e
      | Inr ds \<Rightarrow> Inr (b\<lparr>directions := ds\<rparr>))"

subsection \<open>Dot\<close>

text \<open>The flags \<open>dead\<close>, \<open>reached_goal\<close> and \<open>is_best\<close> are the integers 0 and 1 in the
  program, read only for their truth value.\<close>

record dot =
  brain :: brain
  pos :: vec
  vel :: vec
  acc_vec :: vec
  dead :: bool
  fitness :: real
  reached_goal :: bool
  is_best :: bool

text \<open>The module-level counters \<^verbatim>\<open>dead_count\<close> and \<^verbatim>\<open>goal_count\<close>.\<close>

record globals =
  dead_count :: nat
  goal_count :: nat

text \<open>The fields set by \<^verbatim>\<open>Dot.__init__\<close>, for a given brain.\<close>

definition Dot_new :: "brain \<Rightarrow> dot" where
  "Dot_new b =
     \<lparr>brain = b, pos = (height - 125, width * 0.95), vel = (0, 0), acc_vec = (0, 0),
      dead = False, fitness = 0, reached_goal = False, is_best = False\<rparr>"

definition Dot_init :: "(nat \<Rightarrow> real \<times> real) \<Rightarrow> error + dot" where
  "Dot_init gs = (case Brain_init 400 gs of Inl e \<Rightarrow> Inl e | Inr b \<Rightarrow> Inr (Dot_new b))"

text \<open>\<^verbatim>\<open>Dot.move\<close>. The branch for a used-up brain sets the flag and the counter and
  falls through to the velocity and position update, as the program does.\<close>

definition move :: "dot \<Rightarrow> globals \<Rightarrow> dot \<times> globals" where
  "move d g =
     (let (d1, g1) =
            (if length (directions (brain d)) > step (brain d) then
               (d\<lparr>acc_vec := directions (brain d) ! step (brain d),
                  brain := (brain d)\<lparr>step := step (brain d) + 1\<rparr>\<rparr>, g)
             else (d\<lparr>dead := True\<rparr>, g\<lparr>dead_count := dead_count g + 1\<rparr>));
          v = vadd (vel d1) (acc_vec d1);
          velocity_mag = magnitude v;
          v' = (if velocity_mag > dot_max_velocity
                then (dot_max_velocity * fst v / velocity_mag,
                      dot_max_velocity * snd v / velocity_mag)
                else v)
      in (d1\<lparr>vel := v', pos := vadd (pos d1) v'\<rparr>, g1))"

text \<open>The containment test written out twice in \<^verbatim>\<open>Dot.update\<close>.\<close>

definition inside :: "real \<times> real \<times> real \<times> real \<Rightarrow> vec \<Rightarrow> bool" where
  "inside r p =
     (case r of (r0, r1, r2, r3) \<Rightarrow>
        r1 < fst p \<and> fst p < r1 + r3 \<and> r0 < snd p \<and> snd p < r0 + r2)"

definition Dot_update :: "dot \<Rightarrow> globals \<Rightarrow> dot \<times> globals" where
  "Dot_update d g =
     (if \<not> dead d \<and> \<not> reached_goal d then
        (let (d1, g1) = move d g
         in if fst (pos d1) < 2 \<or> snd (pos d1) < 2 \<or> fst (pos d1) > height - 2
               \<or> snd (pos d1) > width - 2
            then (d1\<lparr>dead := True\<rparr>, g1\<lparr>dead_count := dead_count g1 + 1\<rparr>)
            else if magnitude (vsub goal (pos d1)) < 20
            then (d1\<lparr>reached_goal := True\<rparr>, g1\<lparr>goal_count := goal_count g1 + 1\<rparr>)
            else if inside rect_1 (pos d1)
            then (d1\<lparr>dead := True\<rparr>, g1\<lparr>dead_count := dead_count g1 + 1\<rparr>)
            else if inside rect_2 (pos d1)
            then (d1\<lparr>dead := True\<rparr>, g1\<lparr>dead_count := dead_count g1 + 1\<rparr>)
            else (d1, g1))
      else (d, g))"

text \<open>\<^verbatim>\<open>Dot.calculate_fitness\<close>. Neither division is guarded: \<^verbatim>\<open>1000.0/(step**2)\<close>
  raises for step 0, and \<^verbatim>\<open>1/(distance_to_goal ** 2)\<close> divides a numpy float by 0.0
  when the dot sits on the goal.\<close>

definition Dot_calculate_fitness :: "dot \<Rightarrow> error + dot" where
  "Dot_calculate_fitness d =
     (if reached_goal d then
        (if (step (brain d))\<^sup>2 = 0 then Inl ZeroDivisionError
         else Inr (d\<lparr>fitness := 1.0 / 16.0 + 1000.0 / real ((step (brain d))\<^sup>2)\<rparr>))
      else
        (let distance_to_goal = magnitude (vsub goal (pos d))
         in if distance_to_goal\<^sup>2 = 0 then Inl DivideByZero
            else Inr (d\<lparr>fitness := 1 / distance_to_goal\<^sup>2\<rparr>)))"

definition get_baby :: "dot \<Rightarrow> dot" where
  "get_baby d = Dot_new (clone (brain d))"

subsection \<open>Population\<close>

record population =
  fitness_sum :: real
  gen :: nat
  best_dot :: nat
  min_step :: nat
  dots :: "dot list"

text \<open>\<^verbatim>\<open>Population.__init__\<close>: \<open>gss i\<close> are the gauss draws of the brain of dot \<open>i\<close>.\<close>

fun init_loop :: "nat list \<Rightarrow> (nat \<Rightarrow> nat \<Rightarrow> real \<times> real) \<Rightarrow> error + dot list" where
  "init_loop [] gss = Inr []"
| "init_loop (i # is) gss =
     (case Dot_init (gss i) of
        Inl e \<Rightarrow> Inl e
      | Inr d \<Rightarrow> (case init_loop is gss of Inl e \<Rightarrow> Inl e | Inr ds \<Rightarrow> Inr (d # ds)))"

definition Population_init :: "nat \<Rightarrow> (nat \<Rightarrow> nat \<Rightarrow> real \<times> real) \<Rightarrow> error + population" where
  "Population_init n gss =
     (case init_loop [0..<n] gss of
        Inl e \<Rightarrow> Inl e
      | Inr ds \<Rightarrow> Inr \<lparr>fitness_sum = 0, gen = 1, best_dot = 0, min_step = 400, dots = ds\<rparr>)"

text \<open>\<^verbatim>\<open>Population.update\<close>: the test of the step counter looks at no flag of the dot.\<close>

fun update_loop :: "nat \<Rightarrow> dot list \<Rightarrow> globals \<Rightarrow> dot list \<times> globals" where
  "update_loop m [] g = ([], g)"
| "update_loop m (d # ds) g =
     (let (d', g') =
            (if step (brain d) > m
             then (d\<lparr>dead := True\<rparr>, g\<lparr>dead_count := dead_count g + 1\<rparr>)
             else Dot_update d g);
          (ds', g'') = update_loop m ds g'
      in (d' # ds', g''))"

definition Population_update :: "population \<Rightarrow> globals \<Rightarrow> population \<times> globals" where
  "Population_update p g =
     (let (ds, g') = update_loop (min_step p) (dots p) g in (p\<lparr>dots := ds\<rparr>, g'))"

fun calculate_fitness_loop :: "dot list \<Rightarrow> error + dot list" where
  "calculate_fitness_loop [] = Inr []"
| "calculate_fitness_loop (d # ds) =
     (case Dot_calculate_fitness d of
        Inl e \<Rightarrow> Inl e
      | Inr d' \<Rightarrow>
          (case calculate_fitness_loop ds of Inl e \<Rightarrow> Inl e | Inr ds' \<Rightarrow> Inr (d' # ds')))"

definition Population_calculate_fitness :: "population \<Rightarrow> error + population" where
  "Population_calculate_fitness p =
     (case calculate_fitness_loop (dots p) of
        Inl e \<Rightarrow> Inl e
      | Inr ds \<Rightarrow> Inr (p\<lparr>dots := ds\<rparr>))"

fun all_dead_loop :: "dot list \<Rightarrow> bool" where
  "all_dead_loop [] = True"
| "all_dead_loop (d # ds) =
     (if \<not> dead d \<and> \<not> reached_goal d then False else all_dead_loop ds)"

definition all_dots_dead :: "population \<Rightarrow> bool" where
  "all_dots_dead p = all_dead_loop (dots p)"

fun fitness_sum_loop :: "dot list \<Rightarrow> real \<Rightarrow> real" where
  "fitness_sum_loop [] s = s"
| "fitness_sum_loop (d # ds) s = fitness_sum_loop ds (s + fitness d)"

definition calculate_fitness_sum :: "population \<Rightarrow> population" where
  "calculate_fitness_sum p = p\<lparr>fitness_sum := fitness_sum_loop (dots p) 0\<rparr>"

text \<open>\<^verbatim>\<open>Population.select_parent\<close>: \<open>u\<close> is the value of \<^verbatim>\<open>random()\<close> behind
  \<^verbatim>\<open>uniform(0, self.fitness_sum)\<close>. The result \<open>None\<close> is the integer 0 that the
  program returns after the loop.\<close>

fun select_loop :: "dot list \<Rightarrow> real \<Rightarrow> real \<Rightarrow> dot option" where
  "select_loop [] rand running_sum = None"
| "select_loop (d # ds) rand running_sum =
     (if running_sum + fitness d > rand then Some d
      else select_loop ds rand (running_sum + fitness d))"

definition select_parent :: "population \<Rightarrow> real \<Rightarrow> dot option" where
  "select_parent p u = select_loop (dots p) (uniform 0 (fitness_sum p) u) 0"

text \<open>\<^verbatim>\<open>Population.set_best_dot\<close>: the loop carries the index, \<^verbatim>\<open>max_fitness\<close> and
  \<^verbatim>\<open>max_index\<close>; reading \<^verbatim>\<open>self.dots[0]\<close> of an empty array raises.\<close>

fun best_loop :: "dot list \<Rightarrow> nat \<Rightarrow> real \<Rightarrow> nat \<Rightarrow> nat" where
  "best_loop [] i max_fitness max_index = max_index"
| "best_loop (d # ds) i max_fitness max_index =
     (if fitness d > max_fitness then best_loop ds (i + 1) (fitness d) i
      else best_loop ds (i + 1) max_fitness max_index)"

definition set_best_dot :: "population \<Rightarrow> error + population" where
  "set_best_dot p =
     (let p1 = p\<lparr>best_dot := best_loop (dots p) 0 0 0\<rparr>
      in if best_dot p1 < length (dots p1) then
           (if reached_goal (dots p1 ! best_dot p1)
            then Inr (p1\<lparr>min_step := step (brain (dots p1 ! best_dot p1))\<rparr>)
            else Inr p1)
         else Inl IndexError)"

text \<open>The loop of \<^verbatim>\<open>natural_selection\<close> over the slots 1 and up: \<open>us i\<close> is the
  draw of the call of \<^verbatim>\<open>select_parent\<close> for slot \<open>i\<close>. When that call returns 0,
  \<^verbatim>\<open>parent.get_baby()\<close> raises. The dot that \<^verbatim>\<open>Dot()\<close> puts in the slot first is
  replaced at once.\<close>

fun babies_loop :: "nat list \<Rightarrow> population \<Rightarrow> (nat \<Rightarrow> real) \<Rightarrow> error + dot list" where
  "babies_loop [] p us = Inr []"
| "babies_loop (i # is) p us =
     (case select_parent p (us i) of
        None \<Rightarrow> Inl AttributeError
      | Some parent \<Rightarrow>
          (case babies_loop is p us of
             Inl e \<Rightarrow> Inl e
           | Inr bs \<Rightarrow> Inr (get_baby parent # bs)))"

definition natural_selection :: "population \<Rightarrow> (nat \<Rightarrow> real) \<Rightarrow> error + population" where
  "natural_selection p us =
     (case set_best_dot p of
        Inl e \<Rightarrow> Inl e
      | Inr p1 \<Rightarrow>
          (let new_dots_0 = (get_baby (dots p1 ! best_dot p1))\<lparr>is_best := True\<rparr>;
               p2 = calculate_fitness_sum p1
           in case babies_loop [1..<length (dots p2)] p2 us of
                Inl e \<Rightarrow> Inl e
              | Inr bs \<Rightarrow> Inr (p2\<lparr>dots := new_dots_0 # bs, gen := gen p2 + 1\<rparr>)))"

text \<open>\<^verbatim>\<open>Population.mutate_babies\<close>: \<open>rss i\<close> are the draws of the brain of dot \<open>i\<close>.\<close>

fun mutate_babies_loop ::
  "nat list \<Rightarrow> dot list \<Rightarrow> (nat \<Rightarrow> nat \<Rightarrow> real \<times> real \<times> real) \<Rightarrow> error + dot list" where
  "mutate_babies_loop [] ds rss = Inr ds"
| "mutate_babies_loop (i # is) ds rss =
     (case mutate (brain (ds ! i)) (rss i) of
        Inl e \<Rightarrow> Inl e
      | Inr b \<Rightarrow> mutate_babies_loop is (ds[i := (ds ! i)\<lparr>brain := b\<rparr>]) rss)"

definition mutate_babies ::
  "population \<Rightarrow> (nat \<Rightarrow> nat \<Rightarrow> real \<times> real \<times> real) \<Rightarrow> error + population" where
  "mutate_babies p rss =
     (case mutate_babies_loop [1..<length (dots p)] (dots p) rss of
        Inl e \<Rightarrow> Inl e
      | Inr ds \<Rightarrow> Inr (p\<lparr>dots := ds\<rparr>))"

subsection \<open>The main loop\<close>

text \<open>One pass of the loop of \<^verbatim>\<open>main\<close> on the swarm and the two counters: the
  genetic step when no dot is active, a tick otherwise.\<close>

definition main_loop_body ::
  "population \<times> globals \<Rightarrow> (nat \<Rightarrow> real) \<Rightarrow> (nat \<Rightarrow> nat \<Rightarrow> real \<times> real \<times> real)
     \<Rightarrow> error + population \<times> globals" where
  "main_loop_body s us rss =
     (case s of (swarm, g) \<Rightarrow>
        if all_dots_dead swarm then
          (case Population_calculate_fitness swarm of
             Inl e \<Rightarrow> Inl e
           | Inr p1 \<Rightarrow>
               (case natural_selection p1 us of
                  Inl e \<Rightarrow> Inl e
                | Inr p2 \<Rightarrow>
                    (case mutate_babies p2 rss of
                       Inl e \<Rightarrow> Inl e
                     | Inr p3 \<Rightarrow> Inr (p3, \<lparr>dead_count = 0, goal_count = 0\<rparr>))))
        else Inr (Population_update swarm g))"

text \<open>The states of a run of \<^verbatim>\<open>main\<close>, for a swarm of any size and any draws.\<close>

inductive reachable :: "population \<times> globals \<Rightarrow> bool" where
  start: "Population_init n gss = Inr p \<Longrightarrow> reachable (p, \<lparr>dead_count = 0, goal_count = 0\<rparr>)"
| iter: "reachable s \<Longrightarrow> main_loop_body s us rss = Inr s' \<Longrightarrow> reachable s'"

subsection \<open>Concrete states used in the evaluations below\<close>

text \<open>A dot that is still active and has used all 400 vectors of its brain.\<close>

definition exhausted_dot :: "vec \<Rightarrow> vec \<Rightarrow> vec \<Rightarrow> dot" where
  "exhausted_dot p v a =
     \<lparr>brain = \<lparr>directions = replicate 400 a, step = 400\<rparr>, pos = p, vel = v, acc_vec = a,
      dead = False, fitness = 0, reached_goal = False, is_best = False\<rparr>"

text \<open>An active dot after \<open>k\<close> steps, all of whose vectors point towards the top edge.\<close>

definition active_dot :: "nat \<Rightarrow> vec \<Rightarrow> vec \<Rightarrow> dot" where
  "active_dot k p v =
     \<lparr>brain = \<lparr>directions = replicate 400 (- 1, 0), step = k\<rparr>, pos = p, vel = v,
      acc_vec = (- 1, 0), dead = False, fitness = 0, reached_goal = False, is_best = False\<rparr>"

text \<open>A finished dot with a given fitness.\<close>

definition scored_dot :: "real \<Rightarrow> dot" where
  "scored_dot f =
     \<lparr>brain = \<lparr>directions = replicate 400 (1, 0), step = 7\<rparr>, pos = (300, 900), vel = (3, 4),
      acc_vec = (1, 0), dead = True, fitness = f, reached_goal = False, is_best = False\<rparr>"

definition swarm_of :: "nat \<Rightarrow> real \<Rightarrow> dot list \<Rightarrow> population" where
  "swarm_of m fs ds = \<lparr>fitness_sum = fs, gen = 2, best_dot = 0, min_step = m, dots = ds\<rparr>"

definition no_counts :: globals where
  "no_counts = \<lparr>dead_count = 0, goal_count = 0\<rparr>"

text \<open>Fixed draws: every gauss pair (0, 0); every gauss pair (1, 0); the same value of
  \<^verbatim>\<open>random()\<close> for every slot; draws under which no gene is replaced; draws under
  which gene 0 alone is replaced, by the pair (1, 0).\<close>

definition zero_draws :: "nat \<Rightarrow> real \<times> real" where
  "zero_draws i = (0, 0)"

definition east_draws :: "nat \<Rightarrow> real \<times> real" where
  "east_draws i = (1, 0)"

definition fixed_draw :: "real \<Rightarrow> nat \<Rightarrow> real" where
  "fixed_draw u i = u"

definition no_mutation :: "nat \<Rightarrow> real \<times> real \<times> real" where
  "no_mutation i = (1 / 2, (1, 0))"

definition fixed_draws :: "'a \<Rightarrow> nat \<Rightarrow> 'a" where
  "fixed_draws rs i = rs"

definition first_gene_mutation :: "nat \<Rightarrow> real \<times> real \<times> real" where
  "first_gene_mutation i = (if i = 0 then (0, (1, 0)) else (1 / 2, (1, 0)))"

text \<open>Gauss draws that are unit vectors already and steer a dot from the start, left
  along its row and then up past both rectangles, into the goal on its step 117; the
  speed never exceeds 15.\<close>

definition route_draws :: "nat \<Rightarrow> real \<times> real" where
  "route_draws i =
     (if i < 15 then (0, - 1)
      else if i < 49 then (if odd i then (0, 1) else (0, - 1))
      else if i < 63 then (0, 1)
      else if i = 63 then (0, - 1)
      else if i < 66 then (0, 1)
      else if i < 81 then (- 1, 0)
      else if i < 117 then (if odd i then (1, 0) else (- 1, 0))
      else (1, 0))"

text \<open>The dot built from those draws, after \<open>k\<close> steps.\<close>

definition route_dot :: "nat \<Rightarrow> vec \<Rightarrow> vec \<Rightarrow> vec \<Rightarrow> bool \<Rightarrow> dot" where
  "route_dot k p v a r =
     \<lparr>brain = \<lparr>directions = map route_draws [0..<400], step = k\<rparr>, pos = p, vel = v,
      acc_vec = a, dead = False, fitness = 0, reached_goal = r, is_best = False\<rparr>"

text \<open>A first-generation swarm of one dot.\<close>

definition route_swarm :: "dot \<Rightarrow> population" where
  "route_swarm d = \<lparr>fitness_sum = 0, gen = 1, best_dot = 0, min_step = 400, dots = [d]\<rparr>"

text \<open>The swarm that follows when that dot has reached the goal.\<close>

definition next_swarm :: population where
  "next_swarm =
     \<lparr>fitness_sum = 1 / 16 + 1000 / 117\<^sup>2, gen = 2, best_dot = 0, min_step = 117,
      dots = [(Dot_new \<lparr>directions = map route_draws [0..<400], step = 0\<rparr>)\<lparr>is_best := True\<rparr>]\<rparr>"

text \<open>The branch of the main loop that ticks the swarm.\<close>

definition pass :: "population \<times> globals \<Rightarrow> population \<times> globals" where
  "pass s = Population_update (fst s) (snd s)"

subsection \<open>Notions for following a run\<close>

text \<open>What one pass of \<^verbatim>\<open>Population.update\<close> with budget \<open>m\<close> does to a single dot;
  the counters play no part in it.\<close>

definition tick :: "nat \<Rightarrow> dot \<Rightarrow> dot" where
  "tick m d = (if step (brain d) > m then d\<lparr>dead := True\<rparr> else fst (Dot_update d no_counts))"

text \<open>A dot without the two fields that no step of a dot reads.\<close>

definition core :: "dot \<Rightarrow> dot" where
  "core d = d\<lparr>fitness := 0, is_best := False\<rparr>"

text \<open>Some number of ticks takes the dot to the goal with exactly \<open>m\<close> steps used.\<close>

definition reaches_in_budget :: "nat \<Rightarrow> dot \<Rightarrow> bool" where
  "reaches_in_budget m d =
     (\<exists>K. reached_goal ((tick m ^^ K) d) \<and> step (brain ((tick m ^^ K) d)) = m)"

text \<open>The dot is what some number of ticks makes of a new dot with the same vectors.\<close>

definition on_track :: "nat \<Rightarrow> dot \<Rightarrow> bool" where
  "on_track m d =
     (\<exists>k. core d = (tick m ^^ k) (Dot_new \<lparr>directions = directions (brain d), step = 0\<rparr>))"

text \<open>A dot that has not reached the goal is at least 18 away from its centre.\<close>

definition far_or_reached :: "dot \<Rightarrow> bool" where
  "far_or_reached d =
     (reached_goal d \<or> 324 \<le> (fst goal - fst (pos d))\<^sup>2 + (snd goal - snd (pos d))\<^sup>2)"

text \<open>What holds of the swarm at the head of the main loop.\<close>

definition run_inv :: "population \<Rightarrow> bool" where
  "run_inv p =
     ((\<forall>d\<in>set (dots p). length (directions (brain d)) = 400 \<and> step (brain d) \<le> 400
          \<and> on_track (min_step p) d \<and> far_or_reached d)
      \<and> (min_step p = 400 \<or> (dots p \<noteq> [] \<and> reaches_in_budget (min_step p) (dots p ! 0))))"

section \<open>Properties\<close>

subsection \<open>Magnitudes without square roots\<close>

lemma magnitude_gt_iff: "0 \<le> c \<Longrightarrow> magnitude v > c \<longleftrightarrow> (fst v)\<^sup>2 + (snd v)\<^sup>2 > c\<^sup>2"
  unfolding magnitude_def
  by (metis real_sqrt_less_iff real_sqrt_abs abs_of_nonneg)

lemma magnitude_lt_iff: "0 \<le> c \<Longrightarrow> magnitude v < c \<longleftrightarrow> (fst v)\<^sup>2 + (snd v)\<^sup>2 < c\<^sup>2"
  unfolding magnitude_def
  by (metis real_sqrt_less_iff real_sqrt_abs abs_of_nonneg)

lemma magnitude_sq: "(magnitude v)\<^sup>2 = (fst v)\<^sup>2 + (snd v)\<^sup>2"
  by (simp add: magnitude_def)

lemma magnitude_zero_iff: "magnitude v = 0 \<longleftrightarrow> v = (0, 0)"
  by (cases v) (simp add: magnitude_def)

lemmas geometry_defs = vadd_def vsub_def dot_max_velocity_def height_def width_def goal_def
  inside_def rect_1_def rect_2_def magnitude_gt_iff magnitude_lt_iff

lemmas example_defs = exhausted_dot_def active_dot_def scored_dot_def swarm_of_def no_counts_def
  zero_draws_def east_draws_def fixed_draw_def no_mutation_def fixed_draws_def first_gene_mutation_def

subsection \<open>The step of a dot\<close>

text \<open>
  C2. The claim: a step of an active dot whose brain is used up marks the dot dead and
  stops, leaving velocity and position as they were. The program marks the dot dead and
  then still runs the velocity and position update with the last acceleration: the dot at
  (100, 100) with velocity (3, 4) and acceleration (1, 0) ends at (104, 104) with
  velocity (4, 4), both under \<^verbatim>\<open>move\<close> and under \<^verbatim>\<open>update\<close>.
\<close>

theorem move_exhausted_still_moves:
  "move (exhausted_dot (100, 100) (3, 4) (1, 0)) no_counts =
     ((exhausted_dot (100, 100) (3, 4) (1, 0))\<lparr>dead := True, vel := (4, 4), pos := (104, 104)\<rparr>,
      \<lparr>dead_count = 1, goal_count = 0\<rparr>)
   \<and> Dot_update (exhausted_dot (100, 100) (3, 4) (1, 0)) no_counts =
     ((exhausted_dot (100, 100) (3, 4) (1, 0))\<lparr>dead := True, vel := (4, 4), pos := (104, 104)\<rparr>,
      \<lparr>dead_count = 1, goal_count = 0\<rparr>)"
  by (simp add: Dot_update_def move_def example_defs geometry_defs Let_def split_beta)

text \<open>
  C1. The claim: dead and reached-goal exclude each other, and a dot that is dead or has
  reached the goal keeps its status, position and velocity under every later step and
  tick. Two runs of the program break it. A dot with a used-up brain next to the goal is
  marked dead by \<^verbatim>\<open>move\<close> and, in the same call of \<^verbatim>\<open>update\<close>, marked as having
  reached the goal. With a step budget of 100, a dot that reaches the goal on its step
  101 is marked dead by the next tick of the population, while a second dot keeps the
  generation running.
\<close>

theorem terminal_status_not_exclusive:
  "(let (d', g') = Dot_update (exhausted_dot (40, 800) (- 3, 0) (- 1, 0)) no_counts
    in dead d' \<and> reached_goal d')
   \<and> (let (p1, g1) = Population_update
           (swarm_of 100 0 [active_dot 100 (45, 800) (- 9, 0), active_dot 100 (400, 1000) (0, 0)])
           no_counts;
         (p2, g2) = Population_update p1 g1
     in \<not> all_dots_dead p1 \<and> reached_goal (dots p1 ! 0) \<and> \<not> dead (dots p1 ! 0)
        \<and> reached_goal (dots p2 ! 0) \<and> dead (dots p2 ! 0))"
  by (simp add: Population_update_def Dot_update_def move_def all_dots_dead_def
      example_defs geometry_defs Let_def split_beta)

text \<open>
  C9. The claim: within a generation the counter of dead dots is the number of dots that
  became dead, each dot counted once however it died and however many ticks follow. In
  the program one call of \<^verbatim>\<open>update\<close> on a dot with a used-up brain that leaves the
  window counts that dot twice; a dot with a used-up brain that enters the goal is counted
  as dead and as having reached the goal; and with a step budget of 100 a swarm of two
  dots, one of which dies at the edge on step 101, ends the generation with a count of 3.
\<close>

theorem dead_count_counts_a_dot_twice:
  "Dot_update (exhausted_dot (3, 100) (- 3, 0) (- 1, 0)) no_counts =
     ((exhausted_dot (3, 100) (- 3, 0) (- 1, 0))\<lparr>dead := True, vel := (- 4, 0), pos := (- 1, 100)\<rparr>,
      \<lparr>dead_count = 2, goal_count = 0\<rparr>)
   \<and> snd (Dot_update (exhausted_dot (40, 800) (- 3, 0) (- 1, 0)) no_counts) =
        \<lparr>dead_count = 1, goal_count = 1\<rparr>
   \<and> (let (p1, g1) = Population_update
           (swarm_of 100 0 [active_dot 100 (5, 100) (- 3, 0), active_dot 100 (400, 1000) (0, 0)])
           no_counts;
         (p2, g2) = Population_update p1 g1
     in \<not> all_dots_dead p1 \<and> g1 = \<lparr>dead_count = 1, goal_count = 0\<rparr> \<and> all_dots_dead p2
        \<and> length (dots p2) = 2 \<and> g2 = \<lparr>dead_count = 3, goal_count = 0\<rparr>)"
  by (simp add: Population_update_def Dot_update_def move_def all_dots_dead_def
      example_defs geometry_defs Let_def split_beta)

subsection \<open>Fitness of a dot\<close>

text \<open>
  C3, as the program has it. A dot that reached the goal after a positive number of steps
  gets the fitness 1/16 + 1000/(step * step); any other dot away from the goal centre gets 1 over
  the squared distance to the goal. Nothing guards either division: on the goal centre the
  division by the squared distance is a division by zero, and so is the other one for
  step 0.
\<close>

theorem calculate_fitness_formula:
  "(reached_goal d \<and> step (brain d) \<noteq> 0 \<longrightarrow>
      Dot_calculate_fitness d =
        Inr (d\<lparr>fitness := 1 / 16 + 1000 / (real (step (brain d)))\<^sup>2\<rparr>))
   \<and> (\<not> reached_goal d \<and> pos d \<noteq> goal \<longrightarrow>
      Dot_calculate_fitness d =
        Inr (d\<lparr>fitness := 1 / ((fst goal - fst (pos d))\<^sup>2 + (snd goal - snd (pos d))\<^sup>2)\<rparr>))
   \<and> (\<not> reached_goal d \<and> pos d = goal \<longrightarrow> Dot_calculate_fitness d = Inl DivideByZero)
   \<and> (reached_goal d \<and> step (brain d) = 0 \<longrightarrow> Dot_calculate_fitness d = Inl ZeroDivisionError)"
  by (auto simp add: Dot_calculate_fitness_def Let_def magnitude_sq magnitude_zero_iff
      vsub_def prod_eq_iff)

theorem calculate_fitness_formula_witness:
  "Dot_calculate_fitness ((scored_dot 0)\<lparr>reached_goal := True\<rparr>) =
     Inr ((scored_dot 0)\<lparr>reached_goal := True, fitness := 1 / 16 + 1000 / 49\<rparr>)
   \<and> Dot_calculate_fitness ((scored_dot 0)\<lparr>pos := (20, 790)\<rparr>) =
     Inr ((scored_dot 0)\<lparr>pos := (20, 790), fitness := 1 / 100\<rparr>)
   \<and> Dot_calculate_fitness ((scored_dot 0)\<lparr>pos := goal\<rparr>) = Inl DivideByZero
   \<and> Dot_calculate_fitness ((scored_dot 0)\<lparr>reached_goal := True, brain := clone (brain (scored_dot 0))\<rparr>)
       = Inl ZeroDivisionError"
  using calculate_fitness_formula [of "(scored_dot 0)\<lparr>reached_goal := True\<rparr>"]
    calculate_fitness_formula [of "(scored_dot 0)\<lparr>pos := (20, 790)\<rparr>"]
    calculate_fitness_formula [of "(scored_dot 0)\<lparr>pos := goal\<rparr>"]
    calculate_fitness_formula
      [of "(scored_dot 0)\<lparr>reached_goal := True, brain := clone (brain (scored_dot 0))\<rparr>"]
  by (simp add: scored_dot_def clone_def goal_def width_def)

text \<open>
  C3 as claimed says that the division is guarded for every final position, the goal
  centre included. A dot that did not reach the goal and sits at (20, 800) makes the
  program divide by zero.
\<close>

theorem calculate_fitness_on_goal_counterexample:
  "Dot_calculate_fitness ((scored_dot 0)\<lparr>pos := (20, 800)\<rparr>) = Inl DivideByZero"
  by (simp add: Dot_calculate_fitness_def Let_def magnitude_zero_iff vsub_def goal_def
      width_def scored_dot_def)

subsection \<open>Selection of a parent\<close>

lemma fitness_sum_loop_eq: "fitness_sum_loop ds s = s + sum_list (map fitness ds)"
  by (induction ds arbitrary: s) simp_all


lemma select_loop_Some:
  "select_loop ds r s = Some d \<Longrightarrow>
     \<exists>i<length ds. d = ds ! i \<and> r < s + sum_list (map fitness (take (Suc i) ds))
        \<and> (\<forall>k<i. s + sum_list (map fitness (take (Suc k) ds)) \<le> r)"
proof (induction ds arbitrary: s)
  case Nil
  then show ?case by simp
next
  case (Cons x xs)
  show ?case
  proof (cases "r < s + fitness x")
    case True
    with Cons.prems have "d = x" by simp
    with True show ?thesis by (intro exI [of _ 0]) simp
  next
    case False
    with Cons.prems have "select_loop xs r (s + fitness x) = Some d" by simp
    from Cons.IH [OF this] obtain i where i: "i < length xs" "d = xs ! i"
      "r < s + fitness x + sum_list (map fitness (take (Suc i) xs))"
      "\<forall>k<i. s + fitness x + sum_list (map fitness (take (Suc k) xs)) \<le> r" by blast
    have "\<forall>k<Suc i. s + sum_list (map fitness (take (Suc k) (x # xs))) \<le> r"
    proof (intro allI impI)
      fix k assume "k < Suc i"
      then show "s + sum_list (map fitness (take (Suc k) (x # xs))) \<le> r"
        using False i(4) by (cases k) (simp_all add: add.assoc)
    qed
    with i show ?thesis by (intro exI [of _ "Suc i"]) (simp add: add.assoc)
  qed
qed

lemma select_loop_None:
  "select_loop ds r s = None \<longleftrightarrow> (\<forall>i<length ds. s + sum_list (map fitness (take (Suc i) ds)) \<le> r)"
proof (induction ds arbitrary: s)
  case Nil
  then show ?case by simp
next
  case (Cons x xs)
  show ?case
  proof (cases "r < s + fitness x")
    case True
    then have "\<not> (s + sum_list (map fitness (take (Suc 0) (x # xs))) \<le> r)" by simp
    then have "\<not> (\<forall>i<length (x # xs). s + sum_list (map fitness (take (Suc i) (x # xs))) \<le> r)"
      by (metis length_Cons zero_less_Suc)
    with True show ?thesis by simp
  next
    case False
    have "(\<forall>i<length (x # xs). s + sum_list (map fitness (take (Suc i) (x # xs))) \<le> r)
       \<longleftrightarrow> (\<forall>i<length xs. s + fitness x + sum_list (map fitness (take (Suc i) xs)) \<le> r)"
      (is "?L \<longleftrightarrow> ?R")
    proof
      assume l: ?L
      show ?R
      proof (intro allI impI)
        fix i assume "i < length xs"
        then have "Suc i < length (x # xs)" by simp
        from l [rule_format, OF this] show "s + fitness x + sum_list (map fitness (take (Suc i) xs)) \<le> r"
          by (simp add: add.assoc)
      qed
    next
      assume r: ?R
      show ?L
      proof (intro allI impI)
        fix i assume "i < length (x # xs)"
        then show "s + sum_list (map fitness (take (Suc i) (x # xs))) \<le> r"
          using False r by (cases i) (simp_all add: add.assoc)
      qed
    qed
    with False Cons.IH [of "s + fitness x"] show ?thesis by simp
  qed
qed

lemma uniform_range: "0 < b \<Longrightarrow> 0 \<le> u \<Longrightarrow> u < 1 \<Longrightarrow> 0 \<le> uniform 0 b u \<and> uniform 0 b u < b"
  by (simp add: uniform_def)

text \<open>
  C4, as the program has it. The draw is fitness_sum times the value of random(), which
  lies between 0 (included) and fitness_sum (excluded) when fitness_sum is positive. The
  dot returned is the first one in the order of the swarm whose running sum of fitness is
  greater than the draw. When no running sum is greater than the draw the result is the
  integer 0 and no dot; this is what happens when every fitness is 0 and so fitness_sum
  is 0: no random dot is picked instead.
\<close>

theorem select_parent_roulette:
  "(0 < fitness_sum p \<and> 0 \<le> u \<and> u < 1 \<longrightarrow>
      0 \<le> uniform 0 (fitness_sum p) u \<and> uniform 0 (fitness_sum p) u < fitness_sum p)
   \<and> (select_parent p u = Some d \<longrightarrow>
        (\<exists>i<length (dots p). d = dots p ! i
           \<and> uniform 0 (fitness_sum p) u < sum_list (map fitness (take (Suc i) (dots p)))
           \<and> (\<forall>k<i. sum_list (map fitness (take (Suc k) (dots p))) \<le> uniform 0 (fitness_sum p) u)))
   \<and> (select_parent p u = None \<longleftrightarrow>
        (\<forall>i<length (dots p).
           sum_list (map fitness (take (Suc i) (dots p))) \<le> uniform 0 (fitness_sum p) u))
   \<and> ((\<forall>d\<in>set (dots p). 0 \<le> fitness d) \<and> fitness_sum (calculate_fitness_sum p) = 0 \<longrightarrow>
        select_parent (calculate_fitness_sum p) u = None)"
proof (intro conjI impI)
  assume "0 < fitness_sum p \<and> 0 \<le> u \<and> u < 1"
  then show "0 \<le> uniform 0 (fitness_sum p) u" "uniform 0 (fitness_sum p) u < fitness_sum p"
    by (simp_all add: uniform_def)
next
  assume "select_parent p u = Some d"
  then have "select_loop (dots p) (uniform 0 (fitness_sum p) u) 0 = Some d"
    by (simp add: select_parent_def)
  from select_loop_Some [OF this]
  show "\<exists>i<length (dots p). d = dots p ! i
           \<and> uniform 0 (fitness_sum p) u < sum_list (map fitness (take (Suc i) (dots p)))
           \<and> (\<forall>k<i. sum_list (map fitness (take (Suc k) (dots p))) \<le> uniform 0 (fitness_sum p) u)"
    by simp
next
  show "select_parent p u = None \<longleftrightarrow>
        (\<forall>i<length (dots p).
           sum_list (map fitness (take (Suc i) (dots p))) \<le> uniform 0 (fitness_sum p) u)"
    using select_loop_None [of "dots p" "uniform 0 (fitness_sum p) u" 0]
    by (simp add: select_parent_def)
next
  assume a: "(\<forall>d\<in>set (dots p). 0 \<le> fitness d) \<and> fitness_sum (calculate_fitness_sum p) = 0"
  then have zero: "sum_list (map fitness (dots p)) = 0"
    by (simp add: calculate_fitness_sum_def fitness_sum_loop_eq)
  have "sum_list (map fitness (take (Suc i) (dots p))) \<le> 0" for i
  proof -
    have "sum_list (map fitness (take (Suc i) (dots p))) + sum_list (map fitness (drop (Suc i) (dots p)))
        = sum_list (map fitness (dots p))"
      by (metis append_take_drop_id map_append sum_list_append)
    moreover have "0 \<le> sum_list (map fitness (drop (Suc i) (dots p)))"
    proof (rule sum_list_nonneg)
      fix x assume "x \<in> set (map fitness (drop (Suc i) (dots p)))"
      then obtain d where "d \<in> set (drop (Suc i) (dots p))" "x = fitness d" by auto
      with a show "0 \<le> x" by (auto dest: in_set_dropD)
    qed
    ultimately show ?thesis using zero by linarith
  qed
  then show "select_parent (calculate_fitness_sum p) u = None"
    using select_loop_None [of "dots p" "uniform 0 0 u" 0] zero
    by (simp add: select_parent_def calculate_fitness_sum_def fitness_sum_loop_eq uniform_def)
qed

lemma select_parent_example:
  "select_parent (swarm_of 400 10 [scored_dot 4, scored_dot 6]) 0.39 = Some (scored_dot 4)"
  "select_parent (swarm_of 400 10 [scored_dot 4, scored_dot 6]) 0.41 = Some (scored_dot 6)"
  by (simp_all add: select_parent_def uniform_def example_defs)

lemma zero_swarm_example:
  "calculate_fitness_sum (swarm_of 400 0 [scored_dot 0, scored_dot 0]) =
     swarm_of 400 0 [scored_dot 0, scored_dot 0]"
  by (simp add: calculate_fitness_sum_def example_defs)

theorem select_parent_roulette_witness:
  "select_parent (swarm_of 400 10 [scored_dot 4, scored_dot 6]) 0.39 = Some (scored_dot 4)
   \<and> select_parent (swarm_of 400 10 [scored_dot 4, scored_dot 6]) 0.41 = Some (scored_dot 6)
   \<and> 0 \<le> uniform 0 (fitness_sum (swarm_of 400 10 [scored_dot 4, scored_dot 6])) 0.41
   \<and> uniform 0 (fitness_sum (swarm_of 400 10 [scored_dot 4, scored_dot 6])) 0.41
        < fitness_sum (swarm_of 400 10 [scored_dot 4, scored_dot 6])
   \<and> (\<exists>i<length (dots (swarm_of 400 10 [scored_dot 4, scored_dot 6])).
         scored_dot 6 = dots (swarm_of 400 10 [scored_dot 4, scored_dot 6]) ! i
         \<and> uniform 0 (fitness_sum (swarm_of 400 10 [scored_dot 4, scored_dot 6])) 0.41
            < sum_list (map fitness (take (Suc i) (dots (swarm_of 400 10 [scored_dot 4, scored_dot 6]))))
         \<and> (\<forall>k<i. sum_list (map fitness (take (Suc k) (dots (swarm_of 400 10 [scored_dot 4, scored_dot 6]))))
               \<le> uniform 0 (fitness_sum (swarm_of 400 10 [scored_dot 4, scored_dot 6])) 0.41))
   \<and> fitness_sum (calculate_fitness_sum (swarm_of 400 0 [scored_dot 0, scored_dot 0])) = 0
   \<and> select_parent (calculate_fitness_sum (swarm_of 400 0 [scored_dot 0, scored_dot 0])) (1 / 2) = None"
proof -
  note a = select_parent_roulette [of "swarm_of 400 10 [scored_dot 4, scored_dot 6]" "0.41" "scored_dot 6"]
  note b = select_parent_roulette [of "swarm_of 400 0 [scored_dot 0, scored_dot 0]" "1 / 2"]
  have pos: "0 < fitness_sum (swarm_of 400 10 [scored_dot 4, scored_dot 6]) \<and> (0::real) \<le> 0.41
      \<and> (0.41::real) < 1"
    by (simp add: swarm_of_def)
  have nn: "(\<forall>d\<in>set (dots (swarm_of 400 0 [scored_dot 0, scored_dot 0])). 0 \<le> fitness d)
      \<and> fitness_sum (calculate_fitness_sum (swarm_of 400 0 [scored_dot 0, scored_dot 0])) = 0"
    by (simp add: calculate_fitness_sum_def example_defs)
  from a pos select_parent_example b nn show ?thesis by blast
qed

text \<open>
  C4 as claimed says that a random dot is returned when fitness_sum is 0. For two dots of
  fitness 0 the program returns the integer 0.
\<close>

theorem select_parent_zero_sum_counterexample:
  "select_parent (calculate_fitness_sum (swarm_of 400 0 [scored_dot 0, scored_dot 0])) (1 / 2) = None"
  by (simp add: select_parent_def calculate_fitness_sum_def uniform_def example_defs)







subsection \<open>The next generation\<close>

lemma set_best_dot_frame:
  "set_best_dot p = Inr p1 \<Longrightarrow>
     dots p1 = dots p \<and> fitness_sum p1 = fitness_sum p \<and> gen p1 = gen p
     \<and> best_dot p1 = best_loop (dots p) 0 0 0 \<and> best_dot p1 < length (dots p)
     \<and> min_step p1 = (if reached_goal (dots p ! best_dot p1)
                       then step (brain (dots p ! best_dot p1)) else min_step p)"
  by (auto simp add: set_best_dot_def Let_def split: if_splits)

lemma babies_loop_spec:
  "babies_loop is p us = Inr bs \<Longrightarrow>
     length bs = length is
     \<and> (\<forall>k<length is. \<exists>parent. select_parent p (us (is ! k)) = Some parent
            \<and> bs ! k = get_baby parent)"
proof (induction "is" arbitrary: bs)
  case Nil
  then show ?case by simp
next
  case (Cons i "is")
  from Cons.prems obtain parent bs' where
    sel: "select_parent p (us i) = Some parent" and
    rest: "babies_loop is p us = Inr bs'" and bs: "bs = get_baby parent # bs'"
    by (auto split: option.splits sum.splits)
  from Cons.IH [OF rest] have len: "length bs' = length is"
    and ih: "\<forall>k<length is. \<exists>parent. select_parent p (us (is ! k)) = Some parent
            \<and> bs' ! k = get_baby parent" by simp_all
  have "\<forall>k<length (i # is). \<exists>parent. select_parent p (us ((i # is) ! k)) = Some parent
            \<and> bs ! k = get_baby parent"
  proof (intro allI impI)
    fix k assume "k < length (i # is)"
    then show "\<exists>parent. select_parent p (us ((i # is) ! k)) = Some parent \<and> bs ! k = get_baby parent"
      using sel bs ih by (cases k) simp_all
  qed
  with len bs show ?case by simp
qed

lemma natural_selection_spec:
  assumes "natural_selection p us = Inr p'"
  shows "\<exists>p1 bs. set_best_dot p = Inr p1
     \<and> babies_loop [1..<length (dots p)] (calculate_fitness_sum p1) us = Inr bs
     \<and> p' = (calculate_fitness_sum p1)\<lparr>dots := (get_baby (dots p ! best_dot p1))\<lparr>is_best := True\<rparr> # bs,
                gen := gen p + 1\<rparr>"
proof -
  from assms obtain p1 where p1: "set_best_dot p = Inr p1"
    by (auto simp add: natural_selection_def split: sum.splits)
  note fr = set_best_dot_frame [OF p1]
  from assms p1 obtain bs where
    bs: "babies_loop [1..<length (dots p)] (calculate_fitness_sum p1) us = Inr bs"
    and p': "p' = (calculate_fitness_sum p1)\<lparr>dots := (get_baby (dots p ! best_dot p1))\<lparr>is_best := True\<rparr> # bs,
                gen := gen p + 1\<rparr>"
    using fr by (auto simp add: natural_selection_def Let_def calculate_fitness_sum_def split: sum.splits)
  with p1 show ?thesis by blast
qed

text \<open>
  C5. In \<^verbatim>\<open>natural_selection\<close> the sum of fitness that every call of
  \<^verbatim>\<open>select_parent\<close> uses is the sum over the dots of the old swarm, and each slot
  from 1 on holds the baby of the dot that the roulette over the old swarm picks for the
  draw of that slot: the clone of the best dot, which sits in the new array only, plays
  no part in the sum or in the choice.
\<close>

theorem selection_uses_old_cohort:
  assumes "natural_selection p us = Inr p'"
  shows "fitness_sum p' = sum_list (map fitness (dots p))
    \<and> length (dots p') = length (dots p)
    \<and> (\<forall>i. 1 \<le> i \<and> i < length (dots p) \<longrightarrow>
          (\<exists>parent. select_loop (dots p) (uniform 0 (sum_list (map fitness (dots p))) (us i)) 0 = Some parent
             \<and> dots p' ! i = get_baby parent))"
proof -
  from natural_selection_spec [OF assms] obtain p1 bs where
    p1: "set_best_dot p = Inr p1" and
    bs: "babies_loop [1..<length (dots p)] (calculate_fitness_sum p1) us = Inr bs" and
    p': "p' = (calculate_fitness_sum p1)\<lparr>dots := (get_baby (dots p ! best_dot p1))\<lparr>is_best := True\<rparr> # bs,
                gen := gen p + 1\<rparr>" by blast
  note fr = set_best_dot_frame [OF p1]
  note bl = babies_loop_spec [OF bs]
  have sum: "fitness_sum p' = sum_list (map fitness (dots p))"
    using p' fr by (simp add: calculate_fitness_sum_def fitness_sum_loop_eq)
  have len: "length (dots p') = length (dots p)"
  proof -
    from fr have "0 < length (dots p)" by linarith
    moreover from bl have "length bs = length (dots p) - 1" by simp
    ultimately show ?thesis using p' by (simp add: calculate_fitness_sum_def)
  qed
  have sel: "\<exists>parent. select_loop (dots p) (uniform 0 (sum_list (map fitness (dots p))) (us i)) 0 = Some parent
             \<and> dots p' ! i = get_baby parent" if "1 \<le> i \<and> i < length (dots p)" for i
  proof -
    from that have k: "i - 1 < length [1..<length (dots p)]" and ik: "[1..<length (dots p)] ! (i - 1) = i"
      by auto
    from bl k ik obtain parent where
      "select_parent (calculate_fitness_sum p1) (us i) = Some parent" "bs ! (i - 1) = get_baby parent"
      by metis
    moreover from that p' have "dots p' ! i = bs ! (i - 1)"
      by (cases i) (simp_all add: calculate_fitness_sum_def)
    ultimately show ?thesis using fr
      by (simp add: select_parent_def calculate_fitness_sum_def fitness_sum_loop_eq)
  qed
  from sum len sel show ?thesis by blast
qed

lemma set_best_dot_example:
  "set_best_dot (swarm_of 400 0 [scored_dot 4, scored_dot 6]) =
     Inr ((swarm_of 400 0 [scored_dot 4, scored_dot 6])\<lparr>best_dot := 1\<rparr>)"
  by (simp add: set_best_dot_def Let_def example_defs)

lemma natural_selection_example:
  "natural_selection (swarm_of 400 0 [scored_dot 4, scored_dot 6]) (fixed_draw 0.41) =
     Inr \<lparr>fitness_sum = 10, gen = 3, best_dot = 1, min_step = 400,
          dots = [(get_baby (scored_dot 6))\<lparr>is_best := True\<rparr>, get_baby (scored_dot 6)]\<rparr>"
  by (simp add: natural_selection_def set_best_dot_example)
    (simp add: calculate_fitness_sum_def select_parent_def uniform_def Let_def example_defs)

theorem selection_uses_old_cohort_witness:
  "natural_selection (swarm_of 400 0 [scored_dot 4, scored_dot 6]) (fixed_draw 0.41) =
     Inr \<lparr>fitness_sum = 10, gen = 3, best_dot = 1, min_step = 400,
          dots = [(get_baby (scored_dot 6))\<lparr>is_best := True\<rparr>, get_baby (scored_dot 6)]\<rparr>
   \<and> sum_list (map fitness (dots (swarm_of 400 0 [scored_dot 4, scored_dot 6]))) = 10
   \<and> select_loop (dots (swarm_of 400 0 [scored_dot 4, scored_dot 6])) (uniform 0 10 (fixed_draw 0.41 1)) 0
       = Some (scored_dot 6)"
  using selection_uses_old_cohort [OF natural_selection_example] natural_selection_example
  by (simp add: uniform_def example_defs)

lemma best_loop_inv:
  assumes "\<forall>j<length pre. fitness (pre ! j) \<le> mf" and "0 \<le> mf"
    and "0 < mf \<longrightarrow> mi < length pre \<and> fitness (pre ! mi) = mf \<and> (\<forall>j<mi. fitness (pre ! j) < mf)"
    and "mf = 0 \<longrightarrow> mi = 0"
  shows "\<exists>mf'. (\<forall>j<length (pre @ ds). fitness ((pre @ ds) ! j) \<le> mf') \<and> 0 \<le> mf'
     \<and> (0 < mf' \<longrightarrow> best_loop ds (length pre) mf mi < length (pre @ ds)
           \<and> fitness ((pre @ ds) ! best_loop ds (length pre) mf mi) = mf'
           \<and> (\<forall>j<best_loop ds (length pre) mf mi. fitness ((pre @ ds) ! j) < mf'))
     \<and> (mf' = 0 \<longrightarrow> best_loop ds (length pre) mf mi = 0)"
  using assms
proof (induction ds arbitrary: pre mf mi)
  case Nil
  then show ?case by auto
next
  case (Cons d ds)
  show ?case
  proof (cases "fitness d > mf")
    case True
    have a: "\<forall>j<length (pre @ [d]). fitness ((pre @ [d]) ! j) \<le> fitness d"
      using Cons.prems(1) True by (auto simp add: nth_append less_Suc_eq)
    have b: "0 \<le> fitness d" using True Cons.prems(2) by simp
    have c: "0 < fitness d \<longrightarrow> length pre < length (pre @ [d])
        \<and> fitness ((pre @ [d]) ! length pre) = fitness d
        \<and> (\<forall>j<length pre. fitness ((pre @ [d]) ! j) < fitness d)"
      using Cons.prems(1) True by (auto simp add: nth_append)
    have e: "fitness d = 0 \<longrightarrow> length pre = 0" using True Cons.prems(2) by simp
    from Cons.IH [of "pre @ [d]" "fitness d" "length pre", OF a b c e] True
    show ?thesis by simp
  next
    case False
    have a: "\<forall>j<length (pre @ [d]). fitness ((pre @ [d]) ! j) \<le> mf"
      using Cons.prems(1) False by (auto simp add: nth_append less_Suc_eq)
    have c: "0 < mf \<longrightarrow> mi < length (pre @ [d]) \<and> fitness ((pre @ [d]) ! mi) = mf
        \<and> (\<forall>j<mi. fitness ((pre @ [d]) ! j) < mf)"
      using Cons.prems(3) by (auto simp add: nth_append)
    from Cons.IH [of "pre @ [d]" mf mi, OF a Cons.prems(2) c Cons.prems(4)] False
    show ?thesis by simp
  qed
qed

lemma best_loop_spec:
  assumes "ds \<noteq> []"
  shows "best_loop ds 0 0 0 < length ds
     \<and> (\<forall>j<length ds. fitness (ds ! j) \<le> max 0 (fitness (ds ! best_loop ds 0 0 0)))
     \<and> (\<forall>j<best_loop ds 0 0 0. fitness (ds ! j) < fitness (ds ! best_loop ds 0 0 0))"
proof -
  from best_loop_inv [of "[]" 0 0 ds] obtain mf' where
    le: "\<forall>j<length ds. fitness (ds ! j) \<le> mf'" and nn: "0 \<le> mf'"
    and pos: "0 < mf' \<longrightarrow> best_loop ds 0 0 0 < length ds
           \<and> fitness (ds ! best_loop ds 0 0 0) = mf'
           \<and> (\<forall>j<best_loop ds 0 0 0. fitness (ds ! j) < mf')"
    and zero: "mf' = 0 \<longrightarrow> best_loop ds 0 0 0 = 0"
    by auto
  show ?thesis
  proof (cases "0 < mf'")
    case True
    with pos le show ?thesis by auto
  next
    case False
    with nn have "mf' = 0" by simp
    with zero le assms show ?thesis by (auto simp add: max_def intro: order_trans)
  qed
qed

lemma mutate_loop_length: "mutate_loop is ds rs = Inr ds' \<Longrightarrow> length ds' = length ds"
  by (induction "is" arbitrary: ds) (auto simp add: Let_def split: if_splits sum.splits)

lemma mutate_frame:
  "mutate b rs = Inr b' \<Longrightarrow> step b' = step b \<and> length (directions b') = length (directions b)"
  by (auto simp add: mutate_def split: sum.splits dest: mutate_loop_length)

lemma mutate_babies_loop_frame:
  "mutate_babies_loop is ds rss = Inr ds' \<Longrightarrow>
     length ds' = length ds \<and> (\<forall>j<length ds. j \<notin> set is \<longrightarrow> ds' ! j = ds ! j)"
proof (induction "is" arbitrary: ds)
  case Nil
  then show ?case by simp
next
  case (Cons i "is")
  from Cons.prems obtain b where b: "mutate (brain (ds ! i)) (rss i) = Inr b"
    and rest: "mutate_babies_loop is (ds[i := (ds ! i)\<lparr>brain := b\<rparr>]) rss = Inr ds'"
    by (auto split: sum.splits)
  from Cons.IH [OF rest] show ?case by auto
qed

lemma natural_selection_elite:
  assumes "natural_selection p us = Inr p'"
  shows "best_loop (dots p) 0 0 0 < length (dots p)
    \<and> dots p' ! 0 = (get_baby (dots p ! best_loop (dots p) 0 0 0))\<lparr>is_best := True\<rparr>"
  using assms
  by (auto simp add: natural_selection_def set_best_dot_def Let_def calculate_fitness_sum_def
      split: sum.splits if_splits)

text \<open>
  C6. After \<^verbatim>\<open>natural_selection\<close> the dot in slot 0 has the direction vectors of
  the best dot of the old swarm, the dot of the lowest index among those of greatest
  fitness; and \<^verbatim>\<open>mutate_babies\<close> keeps the size of the swarm and leaves the dot in
  slot 0 as it is.
\<close>

theorem elite_genes_kept:
  assumes "natural_selection p us = Inr p'"
  shows "best_loop (dots p) 0 0 0 < length (dots p)
    \<and> (\<forall>j<length (dots p). fitness (dots p ! j) \<le> max 0 (fitness (dots p ! best_loop (dots p) 0 0 0)))
    \<and> (\<forall>j<best_loop (dots p) 0 0 0. fitness (dots p ! j) < fitness (dots p ! best_loop (dots p) 0 0 0))
    \<and> directions (brain (dots p' ! 0)) = directions (brain (dots p ! best_loop (dots p) 0 0 0))
    \<and> (\<forall>p''. mutate_babies p' rss = Inr p'' \<longrightarrow>
          length (dots p'') = length (dots p') \<and> dots p'' ! 0 = dots p' ! 0)"
proof -
  note el = natural_selection_elite [OF assms]
  then have ne: "dots p \<noteq> []" by auto
  have ne': "dots p' \<noteq> []" using assms
    by (auto simp add: natural_selection_def Let_def split: sum.splits)
  have "length (dots p'') = length (dots p') \<and> dots p'' ! 0 = dots p' ! 0"
    if "mutate_babies p' rss = Inr p''" for p''
  proof -
    from that obtain ds where ds: "mutate_babies_loop [1..<length (dots p')] (dots p') rss = Inr ds"
      and p'': "p'' = p'\<lparr>dots := ds\<rparr>"
      by (auto simp add: mutate_babies_def split: sum.splits)
    from mutate_babies_loop_frame [OF ds] ne' p'' show ?thesis by simp
  qed
  with el best_loop_spec [OF ne] show ?thesis
    by (simp add: get_baby_def clone_def Dot_new_def)
qed

lemma mutate_loop_no_draw:
  "\<forall>i\<in>set is. \<not> fst (rs i) < mutation_rate \<Longrightarrow> mutate_loop is ds rs = Inr ds"
  by (induction "is" arbitrary: ds) (simp_all add: uniform_def)

lemma mutate_babies_example:
  "mutate_babies \<lparr>fitness_sum = 10, gen = 3, best_dot = 1, min_step = 400,
          dots = [(get_baby (scored_dot 6))\<lparr>is_best := True\<rparr>, get_baby (scored_dot 6)]\<rparr>
       (fixed_draws no_mutation) =
     Inr \<lparr>fitness_sum = 10, gen = 3, best_dot = 1, min_step = 400,
          dots = [(get_baby (scored_dot 6))\<lparr>is_best := True\<rparr>, get_baby (scored_dot 6)]\<rparr>"
  by (simp add: mutate_babies_def mutate_def mutate_loop_no_draw no_mutation_def mutation_rate_def fixed_draws_def)

theorem elite_genes_kept_witness:
  "natural_selection (swarm_of 400 0 [scored_dot 4, scored_dot 6]) (fixed_draw 0.41) =
     Inr \<lparr>fitness_sum = 10, gen = 3, best_dot = 1, min_step = 400,
          dots = [(get_baby (scored_dot 6))\<lparr>is_best := True\<rparr>, get_baby (scored_dot 6)]\<rparr>
   \<and> best_loop (dots (swarm_of 400 0 [scored_dot 4, scored_dot 6])) 0 0 0 = 1
   \<and> directions (brain ((get_baby (scored_dot 6))\<lparr>is_best := True\<rparr>)) = directions (brain (scored_dot 6))
   \<and> mutate_babies \<lparr>fitness_sum = 10, gen = 3, best_dot = 1, min_step = 400,
          dots = [(get_baby (scored_dot 6))\<lparr>is_best := True\<rparr>, get_baby (scored_dot 6)]\<rparr>
       (fixed_draws no_mutation) =
     Inr \<lparr>fitness_sum = 10, gen = 3, best_dot = 1, min_step = 400,
          dots = [(get_baby (scored_dot 6))\<lparr>is_best := True\<rparr>, get_baby (scored_dot 6)]\<rparr>"
  using elite_genes_kept [OF natural_selection_example, of "fixed_draws no_mutation"]
    natural_selection_example mutate_babies_example
  by (simp add: example_defs)

subsection \<open>Genes\<close>

lemma magnitude_normalized:
  assumes "magnitude g \<noteq> 0"
  shows "magnitude (fst g / magnitude g, snd g / magnitude g) = 1"
proof -
  let ?s = "(fst g)\<^sup>2 + (snd g)\<^sup>2"
  have nn: "0 \<le> ?s" by simp
  from assms have pos: "?s \<noteq> 0" by (simp add: magnitude_def)
  have "(fst g / sqrt ?s)\<^sup>2 + (snd g / sqrt ?s)\<^sup>2
      = (fst g)\<^sup>2 / (sqrt ?s)\<^sup>2 + (snd g)\<^sup>2 / (sqrt ?s)\<^sup>2"
    by (simp only: power_divide)
  also have "\<dots> = ?s / (sqrt ?s)\<^sup>2"
    by (simp only: add_divide_distrib)
  also have "\<dots> = 1" using nn pos by simp
  finally have "sqrt ((fst g / sqrt ?s)\<^sup>2 + (snd g / sqrt ?s)\<^sup>2) = 1" by simp
  then show ?thesis by (simp only: magnitude_def fst_conv snd_conv)
qed

lemma unit_vector_Inr:
  "unit_vector g = Inr v \<longleftrightarrow> g \<noteq> (0, 0) \<and> v = (fst g / magnitude g, snd g / magnitude g)"
  by (auto simp add: unit_vector_def Let_def magnitude_zero_iff)

lemma unit_vector_Inl: "unit_vector g = Inl e \<longleftrightarrow> g = (0, 0) \<and> e = DivideByZero"
  by (auto simp add: unit_vector_def Let_def magnitude_zero_iff)

lemma randomize_loop_Inr:
  "randomize_loop is ds gs = Inr ds' \<Longrightarrow>
     length ds' = length ds \<and> (\<forall>i\<in>set is. gs i \<noteq> (0, 0))
     \<and> (\<forall>j<length ds. ds' ! j = (if j \<in> set is
            then (fst (gs j) / magnitude (gs j), snd (gs j) / magnitude (gs j)) else ds ! j))"
proof (induction "is" arbitrary: ds)
  case Nil
  then show ?case by simp
next
  case (Cons i "is")
  from Cons.prems obtain v where v: "unit_vector (gs i) = Inr v"
    and rest: "randomize_loop is (ds[i := v]) gs = Inr ds'"
    by (auto split: sum.splits)
  from v have gi: "gs i \<noteq> (0, 0)" and vi: "v = (fst (gs i) / magnitude (gs i), snd (gs i) / magnitude (gs i))"
    by (simp_all add: unit_vector_Inr)
  from Cons.IH [OF rest] gi vi show ?case by (auto simp add: nth_list_update)
qed

lemma randomize_loop_Inl:
  "randomize_loop is ds gs = Inl e \<longleftrightarrow> e = DivideByZero \<and> (\<exists>i\<in>set is. gs i = (0, 0))"
proof (induction "is" arbitrary: ds)
  case Nil
  then show ?case by simp
next
  case (Cons i "is")
  show ?case
  proof (cases "gs i = (0, 0)")
    case True
    then have "unit_vector (gs i) = Inl DivideByZero" by (simp add: unit_vector_Inl)
    with True show ?thesis by auto
  next
    case False
    then obtain v where "unit_vector (gs i) = Inr v" by (simp add: unit_vector_Inr)
    with False Cons.IH [of "ds[i := v]"] show ?thesis by simp
  qed
qed

lemma mutate_loop_Inr:
  "mutate_loop is ds rs = Inr ds' \<Longrightarrow>
     length ds' = length ds
     \<and> (\<forall>i\<in>set is. fst (rs i) < mutation_rate \<longrightarrow> snd (rs i) \<noteq> (0, 0))
     \<and> (\<forall>j<length ds. ds' ! j = (if j \<in> set is \<and> fst (rs j) < mutation_rate
            then (fst (snd (rs j)) / magnitude (snd (rs j)), snd (snd (rs j)) / magnitude (snd (rs j)))
            else ds ! j))"
proof (induction "is" arbitrary: ds)
  case Nil
  then show ?case by simp
next
  case (Cons i "is")
  show ?case
  proof (cases "fst (rs i) < mutation_rate")
    case True
    with Cons.prems obtain v where v: "unit_vector (snd (rs i)) = Inr v"
      and rest: "mutate_loop is (ds[i := v]) rs = Inr ds'"
      by (auto simp add: uniform_def split: sum.splits)
    from v have gi: "snd (rs i) \<noteq> (0, 0)"
      and vi: "v = (fst (snd (rs i)) / magnitude (snd (rs i)), snd (snd (rs i)) / magnitude (snd (rs i)))"
      by (simp_all add: unit_vector_Inr)
    note ih = Cons.IH [OF rest]
    have "ds' ! j = (if j \<in> set (i # is) \<and> fst (rs j) < mutation_rate
            then (fst (snd (rs j)) / magnitude (snd (rs j)), snd (snd (rs j)) / magnitude (snd (rs j)))
            else ds ! j)" if "j < length ds" for j
    proof (cases "j = i")
      case True
      with ih that vi \<open>fst (rs i) < mutation_rate\<close> show ?thesis by simp
    next
      case False
      with ih that show ?thesis by simp
    qed
    with ih gi show ?thesis by simp
  next
    case False
    with Cons.prems have rest: "mutate_loop is ds rs = Inr ds'" by (simp add: uniform_def)
    from Cons.IH [OF rest] False show ?thesis by auto
  qed
qed

lemma mutate_loop_Inl:
  "mutate_loop is ds rs = Inl e \<longleftrightarrow>
     e = DivideByZero \<and> (\<exists>i\<in>set is. fst (rs i) < mutation_rate \<and> snd (rs i) = (0, 0))"
proof (induction "is" arbitrary: ds)
  case Nil
  then show ?case by simp
next
  case (Cons i "is")
  show ?case
  proof (cases "fst (rs i) < mutation_rate")
    case mut: True
    show ?thesis
    proof (cases "snd (rs i) = (0, 0)")
      case True
      then have "unit_vector (snd (rs i)) = Inl DivideByZero" by (simp add: unit_vector_Inl)
      with True mut show ?thesis by (auto simp add: uniform_def)
    next
      case False
      then obtain v where "unit_vector (snd (rs i)) = Inr v" by (simp add: unit_vector_Inr)
      with False mut Cons.IH [of "ds[i := v]"] show ?thesis by (simp add: uniform_def)
    qed
  next
    case False
    with Cons.IH [of ds] show ?thesis by (auto simp add: uniform_def)
  qed
qed

text \<open>
  C7, as the program has it. A brain is created only from draws none of which is the pair
  (0, 0); each of its vectors is then the pair of draws divided by its magnitude and has
  magnitude 1. The same holds for every gene that \<^verbatim>\<open>mutate\<close> replaces, and the other
  genes stay as they were. Nothing tests the magnitude and nothing is drawn again: a pair
  of draws (0, 0) makes the program divide by zero, at creation and at mutation.
\<close>

theorem genes_are_unit_vectors:
  "(Brain_init n gs = Inr b \<longrightarrow>
      length (directions b) = n
      \<and> (\<forall>i<n. gs i \<noteq> (0, 0)
            \<and> directions b ! i = (fst (gs i) / magnitude (gs i), snd (gs i) / magnitude (gs i))
            \<and> magnitude (directions b ! i) = 1))
   \<and> (Brain_init n gs = Inl DivideByZero \<longleftrightarrow> (\<exists>i<n. gs i = (0, 0)))
   \<and> (mutate b0 rs = Inr b' \<longrightarrow>
      length (directions b') = length (directions b0)
      \<and> (\<forall>i<length (directions b0).
            if fst (rs i) < mutation_rate
            then snd (rs i) \<noteq> (0, 0)
              \<and> directions b' ! i =
                  (fst (snd (rs i)) / magnitude (snd (rs i)), snd (snd (rs i)) / magnitude (snd (rs i)))
              \<and> magnitude (directions b' ! i) = 1
            else directions b' ! i = directions b0 ! i))
   \<and> (mutate b0 rs = Inl DivideByZero \<longleftrightarrow>
        (\<exists>i<length (directions b0). fst (rs i) < mutation_rate \<and> snd (rs i) = (0, 0)))"
proof (intro conjI impI)
  assume "Brain_init n gs = Inr b"
  then obtain ds where ds: "randomize_loop [0..<n] (replicate n (0, 0)) gs = Inr ds"
    and b: "directions b = ds"
    by (auto simp add: Brain_init_def randomize_def split: sum.splits)
  note r = randomize_loop_Inr [OF ds]
  from r b show "length (directions b) = n" by simp
  show "\<forall>i<n. gs i \<noteq> (0, 0)
      \<and> directions b ! i = (fst (gs i) / magnitude (gs i), snd (gs i) / magnitude (gs i))
      \<and> magnitude (directions b ! i) = 1"
  proof (intro allI impI)
    fix i assume i: "i < n"
    with r have nz: "gs i \<noteq> (0, 0)" by simp
    from r i b have eq: "directions b ! i = (fst (gs i) / magnitude (gs i), snd (gs i) / magnitude (gs i))"
      by simp
    from nz have "magnitude (gs i) \<noteq> 0" by (simp add: magnitude_zero_iff)
    from magnitude_normalized [OF this] nz eq
    show "gs i \<noteq> (0, 0)
      \<and> directions b ! i = (fst (gs i) / magnitude (gs i), snd (gs i) / magnitude (gs i))
      \<and> magnitude (directions b ! i) = 1" by simp
  qed
next
  show "Brain_init n gs = Inl DivideByZero \<longleftrightarrow> (\<exists>i<n. gs i = (0, 0))"
    using randomize_loop_Inl [of "[0..<n]" "replicate n (0, 0)" gs DivideByZero]
    by (auto simp add: Brain_init_def randomize_def split: sum.splits)
next
  assume "mutate b0 rs = Inr b'"
  then obtain ds where ds: "mutate_loop [0..<length (directions b0)] (directions b0) rs = Inr ds"
    and b: "directions b' = ds"
    by (auto simp add: mutate_def split: sum.splits)
  note r = mutate_loop_Inr [OF ds]
  from r b show "length (directions b') = length (directions b0)" by simp
  show "\<forall>i<length (directions b0).
            if fst (rs i) < mutation_rate
            then snd (rs i) \<noteq> (0, 0)
              \<and> directions b' ! i =
                  (fst (snd (rs i)) / magnitude (snd (rs i)), snd (snd (rs i)) / magnitude (snd (rs i)))
              \<and> magnitude (directions b' ! i) = 1
            else directions b' ! i = directions b0 ! i"
  proof (intro allI impI)
    fix i assume i: "i < length (directions b0)"
    show "if fst (rs i) < mutation_rate
            then snd (rs i) \<noteq> (0, 0)
              \<and> directions b' ! i =
                  (fst (snd (rs i)) / magnitude (snd (rs i)), snd (snd (rs i)) / magnitude (snd (rs i)))
              \<and> magnitude (directions b' ! i) = 1
            else directions b' ! i = directions b0 ! i"
    proof (cases "fst (rs i) < mutation_rate")
      case True
      with r i have nz: "snd (rs i) \<noteq> (0, 0)" by simp
      then have "magnitude (snd (rs i)) \<noteq> 0" by (simp add: magnitude_zero_iff)
      from magnitude_normalized [OF this] r i b True nz show ?thesis by simp
    next
      case False
      with r i b show ?thesis by simp
    qed
  qed
next
  show "mutate b0 rs = Inl DivideByZero \<longleftrightarrow>
        (\<exists>i<length (directions b0). fst (rs i) < mutation_rate \<and> snd (rs i) = (0, 0))"
    using mutate_loop_Inl [of "[0..<length (directions b0)]" "directions b0" rs DivideByZero]
    by (auto simp add: mutate_def split: sum.splits)
qed

lemma Brain_init_example:
  "Brain_init 2 east_draws = Inr \<lparr>directions = [(1, 0), (1, 0)], step = 0\<rparr>"
  by (simp add: Brain_init_def randomize_def unit_vector_def magnitude_def east_draws_def
      numeral_2_eq_2)

lemma mutate_example:
  "mutate \<lparr>directions = [(0, 1), (0, 1)], step = 0\<rparr> first_gene_mutation
     = Inr \<lparr>directions = [(1, 0), (0, 1)], step = 0\<rparr>"
  by (simp add: mutate_def unit_vector_def magnitude_def uniform_def mutation_rate_def
      first_gene_mutation_def numeral_2_eq_2)

theorem genes_are_unit_vectors_witness:
  "Brain_init 2 east_draws = Inr \<lparr>directions = [(1, 0), (1, 0)], step = 0\<rparr>
   \<and> magnitude (directions \<lparr>directions = [(1, 0), (1, 0)], step = 0\<rparr> ! 0) = 1
   \<and> magnitude (directions \<lparr>directions = [(1, 0), (1, 0)], step = 0\<rparr> ! 1) = 1
   \<and> mutate \<lparr>directions = [(0, 1), (0, 1)], step = 0\<rparr> first_gene_mutation
        = Inr \<lparr>directions = [(1, 0), (0, 1)], step = 0\<rparr>
   \<and> magnitude (directions \<lparr>directions = [(1, 0), (0, 1)], step = 0\<rparr> ! 0) = 1"
proof -
  note t = genes_are_unit_vectors [of 2 east_draws "\<lparr>directions = [(1, 0), (1, 0)], step = 0\<rparr>"
      "\<lparr>directions = [(0, 1), (0, 1)], step = 0\<rparr>" first_gene_mutation
      "\<lparr>directions = [(1, 0), (0, 1)], step = 0\<rparr>"]
  from t Brain_init_example
  have "\<forall>i<2. magnitude (directions \<lparr>directions = [(1, 0), (1, 0)], step = 0\<rparr> ! i) = 1"
    by blast
  then have a: "magnitude (directions \<lparr>directions = [(1, 0), (1, 0)], step = 0\<rparr> ! 0) = 1"
    "magnitude (directions \<lparr>directions = [(1, 0), (1, 0)], step = 0\<rparr> ! 1) = 1"
    by (simp_all add: magnitude_def)
  from t mutate_example have "\<forall>i<length (directions \<lparr>directions = [(0, 1), (0, 1)], step = 0\<rparr>).
            if fst (first_gene_mutation i) < mutation_rate
            then snd (first_gene_mutation i) \<noteq> (0, 0)
              \<and> directions \<lparr>directions = [(1, 0), (0, 1)], step = 0\<rparr> ! i =
                  (fst (snd (first_gene_mutation i)) / magnitude (snd (first_gene_mutation i)),
                   snd (snd (first_gene_mutation i)) / magnitude (snd (first_gene_mutation i)))
              \<and> magnitude (directions \<lparr>directions = [(1, 0), (0, 1)], step = 0\<rparr> ! i) = 1
            else directions \<lparr>directions = [(1, 0), (0, 1)], step = 0\<rparr> ! i
                 = directions \<lparr>directions = [(0, 1), (0, 1)], step = 0\<rparr> ! i"
    by blast
  from this [rule_format, of 0]
  have b: "magnitude (directions \<lparr>directions = [(1, 0), (0, 1)], step = 0\<rparr> ! 0) = 1"
    by (simp add: first_gene_mutation_def mutation_rate_def)
  from a b Brain_init_example mutate_example show ?thesis by blast
qed

text \<open>
  C7 as claimed says that no sequence of draws makes the normalization divide by zero.
  With every pair of draws equal to (0, 0) the creation of a brain divides by zero at
  its first vector.
\<close>

theorem randomize_zero_draws_counterexample: "Brain_init 400 zero_draws = Inl DivideByZero"
proof -
  have "\<exists>i\<in>set [0..<400]. zero_draws i = (0, 0)"
    by (rule bexI [of _ 0]) (simp_all add: zero_draws_def)
  then have "randomize_loop [0..<400] (replicate 400 (0, 0)) zero_draws = Inl DivideByZero"
    by (simp only: randomize_loop_Inl simp_thms)
  then show ?thesis by (simp add: Brain_init_def randomize_def)
qed

subsection \<open>The step budget over a run\<close>

paragraph \<open>One step of a dot\<close>

lemma move_fst_globals: "fst (move d g) = fst (move d g')"
  by (simp add: move_def Let_def split_beta)

lemma move_frame:
  "directions (brain (fst (move d g))) = directions (brain d)"
  "is_best (fst (move d g)) = is_best d"
  "fitness (fst (move d g)) = fitness d"
  "reached_goal (fst (move d g)) = reached_goal d"
  "step (brain d) \<le> step (brain (fst (move d g)))"
  "step (brain d) \<le> length (directions (brain d)) \<Longrightarrow>
     step (brain (fst (move d g))) \<le> length (directions (brain d))"
  by (simp_all add: move_def Let_def split_beta)

lemma move_core: "fst (move (core d) g) = core (fst (move d g))"
  by (simp add: move_def Let_def split_beta core_def)

lemma Dot_update_terminal: "dead d \<or> reached_goal d \<Longrightarrow> Dot_update d g = (d, g)"
  by (auto simp add: Dot_update_def)

text \<open>The four ways in which an active dot leaves \<^verbatim>\<open>update\<close>.\<close>

lemma Dot_update_active:
  assumes "\<not> dead d" and "\<not> reached_goal d"
  obtains
    (bounds) "fst (Dot_update d g) = (fst (move d g))\<lparr>dead := True\<rparr>"
      and "fst (pos (fst (move d g))) < 2 \<or> snd (pos (fst (move d g))) < 2
           \<or> fst (pos (fst (move d g))) > 798 \<or> snd (pos (fst (move d g))) > 1598"
  | (goal) "fst (Dot_update d g) = (fst (move d g))\<lparr>reached_goal := True\<rparr>"
  | (rect) "fst (Dot_update d g) = (fst (move d g))\<lparr>dead := True\<rparr>"
      and "\<not> magnitude (vsub goal (pos (fst (move d g)))) < 20"
  | (free) "fst (Dot_update d g) = fst (move d g)"
      and "\<not> magnitude (vsub goal (pos (fst (move d g)))) < 20"
proof -
  obtain d1 g1 where m: "move d g = (d1, g1)" by (cases "move d g")
  have u: "Dot_update d g =
     (if fst (pos d1) < 2 \<or> snd (pos d1) < 2 \<or> fst (pos d1) > 798 \<or> snd (pos d1) > 1598
      then (d1\<lparr>dead := True\<rparr>, g1\<lparr>dead_count := dead_count g1 + 1\<rparr>)
      else if magnitude (vsub goal (pos d1)) < 20
      then (d1\<lparr>reached_goal := True\<rparr>, g1\<lparr>goal_count := goal_count g1 + 1\<rparr>)
      else if inside rect_1 (pos d1)
      then (d1\<lparr>dead := True\<rparr>, g1\<lparr>dead_count := dead_count g1 + 1\<rparr>)
      else if inside rect_2 (pos d1)
      then (d1\<lparr>dead := True\<rparr>, g1\<lparr>dead_count := dead_count g1 + 1\<rparr>)
      else (d1, g1))"
    using assms m by (simp add: Dot_update_def height_def width_def)
  from m have d1: "fst (move d g) = d1" by simp
  show thesis
  proof (cases "fst (pos d1) < 2 \<or> snd (pos d1) < 2 \<or> fst (pos d1) > 798 \<or> snd (pos d1) > 1598")
    case True
    with u d1 show ?thesis by (intro bounds) simp_all
  next
    case out: False
    show ?thesis
    proof (cases "magnitude (vsub goal (pos d1)) < 20")
      case True
      with u d1 out show ?thesis by (intro goal) simp
    next
      case far: False
      show ?thesis
      proof (cases "inside rect_1 (pos d1) \<or> inside rect_2 (pos d1)")
        case True
        with u d1 out far show ?thesis by (intro rect) auto
      next
        case False
        with u d1 out far show ?thesis by (intro free) auto
      qed
    qed
  qed
qed

lemma Dot_update_fst_globals: "fst (Dot_update d g) = fst (Dot_update d g')"
proof (cases "dead d \<or> reached_goal d")
  case True
  then show ?thesis by (simp add: Dot_update_terminal)
next
  case False
  then have "\<not> dead d" "\<not> reached_goal d" by simp_all
  then show ?thesis
    by (simp add: Dot_update_def split_beta move_fst_globals [of d g g'])
qed

lemma Dot_update_frame:
  "directions (brain (fst (Dot_update d g))) = directions (brain d)"
  "is_best (fst (Dot_update d g)) = is_best d"
  "fitness (fst (Dot_update d g)) = fitness d"
  "step (brain d) \<le> step (brain (fst (Dot_update d g)))"
  "step (brain d) \<le> length (directions (brain d)) \<Longrightarrow>
     step (brain (fst (Dot_update d g))) \<le> length (directions (brain d))"
proof -
  have "directions (brain (fst (Dot_update d g))) = directions (brain d)
    \<and> is_best (fst (Dot_update d g)) = is_best d
    \<and> fitness (fst (Dot_update d g)) = fitness d
    \<and> step (brain d) \<le> step (brain (fst (Dot_update d g)))
    \<and> (step (brain d) \<le> length (directions (brain d)) \<longrightarrow>
     step (brain (fst (Dot_update d g))) \<le> length (directions (brain d)))"
  proof (cases "dead d \<or> reached_goal d")
    case True
    then show ?thesis by (simp add: Dot_update_terminal)
  next
    case False
    then have a: "\<not> dead d" "\<not> reached_goal d" by simp_all
    from a show ?thesis
      by (cases rule: Dot_update_active [of d g]) (simp_all add: move_frame)
  qed
  then show "directions (brain (fst (Dot_update d g))) = directions (brain d)"
    "is_best (fst (Dot_update d g)) = is_best d"
    "fitness (fst (Dot_update d g)) = fitness d"
    "step (brain d) \<le> step (brain (fst (Dot_update d g)))"
    "step (brain d) \<le> length (directions (brain d)) \<Longrightarrow>
     step (brain (fst (Dot_update d g))) \<le> length (directions (brain d))"
    by simp_all
qed

lemma Dot_update_core: "fst (Dot_update (core d) g) = core (fst (Dot_update d g))"
proof (cases "dead d \<or> reached_goal d")
  case True
  then have "dead (core d) \<or> reached_goal (core d)" by (simp add: core_def)
  with True show ?thesis by (simp add: Dot_update_terminal)
next
  case False
  then have a: "\<not> dead d" "\<not> reached_goal d" by simp_all
  have m: "fst (move (core d) g) = core (fst (move d g))" by (rule move_core)
  have c: "core (x\<lparr>dead := True\<rparr>) = (core x)\<lparr>dead := True\<rparr>"
    "core (x\<lparr>reached_goal := True\<rparr>) = (core x)\<lparr>reached_goal := True\<rparr>"
    "pos (core x) = pos x" for x
    by (simp_all add: core_def)
  from a show ?thesis
    by (simp add: Dot_update_def split_beta m c) (simp add: core_def)
qed

lemma outside_window_far:
  fixes x y :: real
  assumes "x < 2 \<or> y < 2 \<or> x > 798 \<or> y > 1598"
  shows "324 \<le> (20 - x)\<^sup>2 + (800 - y)\<^sup>2"
proof -
  have sq: "c\<^sup>2 \<le> a\<^sup>2" if "0 \<le> c" "c \<le> \<bar>a\<bar>" for a c :: real
    using that by (metis abs_le_square_iff abs_of_nonneg)
  from assms consider "x < 2" | "y < 2" | "x > 798" | "y > 1598" by blast
  then show ?thesis
  proof cases
    case 1
    then have "(18::real)\<^sup>2 \<le> (20 - x)\<^sup>2" by (intro sq) simp_all
    then have "324 \<le> (20 - x)\<^sup>2" by simp
    with zero_le_power2 [of "800 - y"] show ?thesis by linarith
  next
    case 2
    then have "(18::real)\<^sup>2 \<le> (800 - y)\<^sup>2" by (intro sq) simp_all
    then have "324 \<le> (800 - y)\<^sup>2" by simp
    with zero_le_power2 [of "20 - x"] show ?thesis by linarith
  next
    case 3
    then have "(18::real)\<^sup>2 \<le> (20 - x)\<^sup>2" by (intro sq) simp_all
    then have "324 \<le> (20 - x)\<^sup>2" by simp
    with zero_le_power2 [of "800 - y"] show ?thesis by linarith
  next
    case 4
    then have "(18::real)\<^sup>2 \<le> (800 - y)\<^sup>2" by (intro sq) simp_all
    then have "324 \<le> (800 - y)\<^sup>2" by simp
    with zero_le_power2 [of "20 - x"] show ?thesis by linarith
  qed
qed

lemma Dot_update_far_or_reached:
  assumes "far_or_reached d"
  shows "far_or_reached (fst (Dot_update d g))"
proof (cases "dead d \<or> reached_goal d")
  case True
  with assms show ?thesis by (simp add: Dot_update_terminal)
next
  case False
  then have a: "\<not> dead d" "\<not> reached_goal d" by simp_all
  let ?d1 = "fst (move d g)"
  from a show ?thesis
  proof (cases rule: Dot_update_active [of d g])
    case bounds
    from outside_window_far [OF bounds(2)] bounds(1) show ?thesis
      by (simp add: far_or_reached_def goal_def width_def)
  next
    case goal
    then show ?thesis by (simp add: far_or_reached_def)
  next
    case rect
    from rect(2) have "400 \<le> (fst goal - fst (pos ?d1))\<^sup>2 + (snd goal - snd (pos ?d1))\<^sup>2"
      by (simp add: magnitude_lt_iff vsub_def)
    with rect(1) show ?thesis by (simp add: far_or_reached_def)
  next
    case free
    from free(2) have "400 \<le> (fst goal - fst (pos ?d1))\<^sup>2 + (snd goal - snd (pos ?d1))\<^sup>2"
      by (simp add: magnitude_lt_iff vsub_def)
    with free(1) show ?thesis by (simp add: far_or_reached_def)
  qed
qed

paragraph \<open>One tick of a dot\<close>

lemma tick_terminal:
  "dead d \<or> reached_goal d \<Longrightarrow> tick m d = d \<or> tick m d = d\<lparr>dead := True\<rparr>"
  by (simp add: tick_def Dot_update_terminal)

lemma tick_frame:
  "directions (brain (tick m d)) = directions (brain d)"
  "is_best (tick m d) = is_best d"
  "fitness (tick m d) = fitness d"
  "step (brain d) \<le> step (brain (tick m d))"
  "step (brain d) \<le> length (directions (brain d)) \<Longrightarrow>
     step (brain (tick m d)) \<le> length (directions (brain d))"
  by (simp_all add: tick_def Dot_update_frame)

lemma tick_core: "tick m (core d) = core (tick m d)"
proof -
  have "step (brain (core d)) = step (brain d)" "core (d\<lparr>dead := True\<rparr>) = (core d)\<lparr>dead := True\<rparr>"
    by (simp_all add: core_def)
  then show ?thesis by (simp add: tick_def Dot_update_core)
qed

lemma tick_far_or_reached: "far_or_reached d \<Longrightarrow> far_or_reached (tick m d)"
  by (auto simp add: tick_def Dot_update_far_or_reached) (simp add: far_or_reached_def)

lemma tick_lost: "dead d \<Longrightarrow> \<not> reached_goal d \<Longrightarrow> dead (tick m d) \<and> \<not> reached_goal (tick m d)"
  using tick_terminal [of d m] by auto

lemma tick_reached:
  "reached_goal d \<Longrightarrow> reached_goal (tick m d) \<and> step (brain (tick m d)) = step (brain d)"
  using tick_terminal [of d m] by auto

lemma tick_same_budget:
  "step (brain d) \<le> m \<Longrightarrow> step (brain d) \<le> s \<Longrightarrow> tick m d = tick s d"
  by (simp add: tick_def)

lemma ticks_frame:
  "directions (brain ((tick m ^^ k) d)) = directions (brain d)"
  "step (brain d) \<le> step (brain ((tick m ^^ k) d))"
proof (induction k)
  case 0
  {
    case 1
    show ?case by simp
  next
    case 2
    show ?case by simp
  }
next
  case (Suc k)
  {
    case 1
    with Suc show ?case by (simp add: tick_frame)
  next
    case 2
    from Suc(2) tick_frame(4) [of "(tick m ^^ k) d" m] show ?case by simp
  }
qed

lemma ticks_core: "(tick m ^^ k) (core d) = core ((tick m ^^ k) d)"
  by (induction k) (simp_all add: tick_core)

lemma ticks_lost:
  "dead d \<Longrightarrow> \<not> reached_goal d \<Longrightarrow> \<not> reached_goal ((tick m ^^ k) d) \<and> dead ((tick m ^^ k) d)"
  by (induction k) (simp_all add: tick_lost)

lemma ticks_reached:
  "reached_goal d \<Longrightarrow>
     reached_goal ((tick m ^^ k) d) \<and> step (brain ((tick m ^^ k) d)) = step (brain d)"
  by (induction k) (simp_all add: tick_reached)

text \<open>A dot that reaches the goal under one budget reaches it under the budget of its
  own final step count: until the goal is reached the two runs are the same.\<close>

lemma replay:
  assumes "\<not> dead x" and "\<not> reached_goal x"
    and "reached_goal ((tick m ^^ k) x)" and "step (brain ((tick m ^^ k) x)) = s"
  shows "\<exists>K. reached_goal ((tick s ^^ K) x) \<and> step (brain ((tick s ^^ K) x)) = s"
  using assms
proof (induction k arbitrary: x)
  case 0
  then show ?case by simp
next
  case (Suc k)
  let ?y = "tick m x"
  have it: "(tick m ^^ Suc k) x = (tick m ^^ k) ?y" by (simp add: funpow_swap1)
  from Suc.prems(3) it have ry: "reached_goal ((tick m ^^ k) ?y)" by simp
  from Suc.prems(4) it have sy: "step (brain ((tick m ^^ k) ?y)) = s" by simp
  have budget: "step (brain x) \<le> m"
  proof (rule ccontr)
    assume "\<not> step (brain x) \<le> m"
    then have "?y = x\<lparr>dead := True\<rparr>" by (simp add: tick_def)
    with Suc.prems(2) have "dead ?y" "\<not> reached_goal ?y" by simp_all
    from ticks_lost [OF this] ry show False by simp
  qed
  have "step (brain x) \<le> step (brain ?y)" by (rule tick_frame)
  also have "\<dots> \<le> step (brain ((tick m ^^ k) ?y))" by (rule ticks_frame)
  finally have "step (brain x) \<le> s" using sy by simp
  then have same: "tick s x = ?y" using budget by (rule tick_same_budget)
  show ?case
  proof (cases "reached_goal ?y")
    case True
    from ticks_reached [OF True, where m = m and k = k] sy have "step (brain ?y) = s" by simp
    with True same have "reached_goal ((tick s ^^ 1) x) \<and> step (brain ((tick s ^^ 1) x)) = s"
      by simp
    then show ?thesis by blast
  next
    case False
    have "\<not> dead ?y"
    proof
      assume "dead ?y"
      from ticks_lost [OF this False] ry show False by simp
    qed
    from Suc.IH [OF this False ry sy] obtain K where
      "reached_goal ((tick s ^^ K) ?y) \<and> step (brain ((tick s ^^ K) ?y)) = s" by blast
    with same have "reached_goal ((tick s ^^ Suc K) x) \<and> step (brain ((tick s ^^ Suc K) x)) = s"
      by (simp add: funpow_swap1)
    then show ?thesis by blast
  qed
qed

lemma reaches_tick: "reaches_in_budget m d \<Longrightarrow> reaches_in_budget m (tick m d)"
proof -
  assume "reaches_in_budget m d"
  then obtain K where K: "reached_goal ((tick m ^^ K) d)" "step (brain ((tick m ^^ K) d)) = m"
    by (auto simp add: reaches_in_budget_def)
  show ?thesis
  proof (cases K)
    case 0
    with K have r: "reached_goal d" and s: "step (brain d) = m" by simp_all
    from tick_reached [OF r, where m = m] s
    have "reached_goal ((tick m ^^ 0) (tick m d)) \<and> step (brain ((tick m ^^ 0) (tick m d))) = m"
      by simp
    then show ?thesis unfolding reaches_in_budget_def by blast
  next
    case (Suc K')
    with K have "reached_goal ((tick m ^^ K') (tick m d))
        \<and> step (brain ((tick m ^^ K') (tick m d))) = m"
      by (simp add: funpow_swap1)
    then show ?thesis unfolding reaches_in_budget_def by blast
  qed
qed

lemma ticks_terminal:
  "dead d \<or> reached_goal d \<Longrightarrow>
     reached_goal ((tick m ^^ k) d) = reached_goal d
     \<and> step (brain ((tick m ^^ k) d)) = step (brain d)"
proof (cases "reached_goal d")
  case True
  from ticks_reached [OF True, where m = m and k = k] True show ?thesis by simp
next
  case False
  assume "dead d \<or> reached_goal d"
  with False have d: "dead d" by simp
  have "\<not> reached_goal ((tick m ^^ k) d) \<and> dead ((tick m ^^ k) d)
      \<and> step (brain ((tick m ^^ k) d)) = step (brain d)"
  proof (induction k)
    case 0
    from d False show ?case by simp
  next
    case (Suc k)
    then have "dead ((tick m ^^ k) d) \<or> reached_goal ((tick m ^^ k) d)" by simp
    from tick_terminal [OF this, where m = m] Suc show ?case by auto
  qed
  with False show ?thesis by simp
qed

lemma reaches_terminal:
  "dead d \<or> reached_goal d \<Longrightarrow> reaches_in_budget m d \<Longrightarrow>
     reached_goal d \<and> step (brain d) = m"
proof -
  assume t: "dead d \<or> reached_goal d" and "reaches_in_budget m d"
  then obtain K where K: "reached_goal ((tick m ^^ K) d)" "step (brain ((tick m ^^ K) d)) = m"
    by (auto simp add: reaches_in_budget_def)
  from ticks_terminal [OF t, where m = m and k = K] K show ?thesis by simp
qed

lemma reaches_core: "reaches_in_budget m (core d) = reaches_in_budget m d"
proof -
  have "reached_goal (core x) = reached_goal x" "step (brain (core x)) = step (brain x)" for x
    by (simp_all add: core_def)
  then show ?thesis by (simp add: reaches_in_budget_def ticks_core)
qed

lemma update_loop_map: "fst (update_loop m ds g) = map (tick m) ds"
proof (induction ds arbitrary: g)
  case Nil
  show ?case by simp
next
  case (Cons d ds)
  show ?case
  proof (cases "step (brain d) > m")
    case True
    with Cons.IH show ?thesis by (simp add: split_beta tick_def)
  next
    case False
    have "fst (Dot_update d g) = fst (Dot_update d no_counts)" by (rule Dot_update_fst_globals)
    with False Cons.IH show ?thesis by (simp add: split_beta tick_def)
  qed
qed

paragraph \<open>The invariant at the start and across a tick\<close>

lemma all_dead_loop_iff: "all_dead_loop ds \<longleftrightarrow> (\<forall>d\<in>set ds. dead d \<or> reached_goal d)"
  by (induction ds) auto

lemma Dot_calculate_fitness_Inr:
  assumes "Dot_calculate_fitness d = Inr d1"
  shows "d1 = d\<lparr>fitness := fitness d1\<rparr>"
    and "reached_goal d \<Longrightarrow> step (brain d) \<noteq> 0
           \<and> fitness d1 = 1 / 16 + 1000 / (real (step (brain d)))\<^sup>2"
    and "\<not> reached_goal d \<Longrightarrow>
           fitness d1 = 1 / ((fst goal - fst (pos d))\<^sup>2 + (snd goal - snd (pos d))\<^sup>2)"
  using assms
  by (auto simp add: Dot_calculate_fitness_def Let_def magnitude_sq vsub_def split: if_splits)

lemma calculate_fitness_loop_Inr:
  "calculate_fitness_loop ds = Inr ds1 \<Longrightarrow>
     length ds1 = length ds \<and> (\<forall>i<length ds. Dot_calculate_fitness (ds ! i) = Inr (ds1 ! i))"
proof (induction ds arbitrary: ds1)
  case Nil
  then show ?case by simp
next
  case (Cons d ds)
  from Cons.prems obtain d' ds' where d': "Dot_calculate_fitness d = Inr d'"
    and ds': "calculate_fitness_loop ds = Inr ds'" and eq: "ds1 = d' # ds'"
    by (auto split: sum.splits)
  from Cons.IH [OF ds'] have len: "length ds' = length ds"
    and ih: "\<forall>i<length ds. Dot_calculate_fitness (ds ! i) = Inr (ds' ! i)" by simp_all
  have "Dot_calculate_fitness ((d # ds) ! i) = Inr (ds1 ! i)" if "i < length (d # ds)" for i
    using that d' ih eq by (cases i) simp_all
  with len eq show ?case by simp
qed

lemma mutate_babies_loop_brains:
  "mutate_babies_loop is ds rss = Inr ds' \<Longrightarrow>
     length ds' = length ds
     \<and> (\<forall>j<length ds. \<exists>b. ds' ! j = (ds ! j)\<lparr>brain := b\<rparr> \<and> step b = step (brain (ds ! j))
            \<and> length (directions b) = length (directions (brain (ds ! j))))"
proof (induction "is" arbitrary: ds)
  case Nil
  have "\<exists>b. ds ! j = (ds ! j)\<lparr>brain := b\<rparr> \<and> step b = step (brain (ds ! j))
            \<and> length (directions b) = length (directions (brain (ds ! j)))" for j
    by (rule exI [of _ "brain (ds ! j)"]) simp
  with Nil show ?case by simp
next
  case (Cons i "is")
  from Cons.prems obtain b where b: "mutate (brain (ds ! i)) (rss i) = Inr b"
    and rest: "mutate_babies_loop is (ds[i := (ds ! i)\<lparr>brain := b\<rparr>]) rss = Inr ds'"
    by (auto split: sum.splits)
  let ?ds = "ds[i := (ds ! i)\<lparr>brain := b\<rparr>]"
  from Cons.IH [OF rest] have len: "length ds' = length ds"
    and ih: "\<forall>j<length ds. \<exists>b'. ds' ! j = (?ds ! j)\<lparr>brain := b'\<rparr>
        \<and> step b' = step (brain (?ds ! j))
        \<and> length (directions b') = length (directions (brain (?ds ! j)))" by simp_all
  note mf = mutate_frame [OF b]
  have "\<exists>b'. ds' ! j = (ds ! j)\<lparr>brain := b'\<rparr> \<and> step b' = step (brain (ds ! j))
            \<and> length (directions b') = length (directions (brain (ds ! j)))"
    if j: "j < length ds" for j
  proof -
    from ih j obtain b' where b': "ds' ! j = (?ds ! j)\<lparr>brain := b'\<rparr>"
      "step b' = step (brain (?ds ! j))"
      "length (directions b') = length (directions (brain (?ds ! j)))" by blast
    show ?thesis
    proof (cases "j = i")
      case True
      with b' j mf have "ds' ! j = (ds ! j)\<lparr>brain := b'\<rparr> \<and> step b' = step (brain (ds ! j))
            \<and> length (directions b') = length (directions (brain (ds ! j)))" by simp
      then show ?thesis by blast
    next
      case False
      with b' j have "ds' ! j = (ds ! j)\<lparr>brain := b'\<rparr> \<and> step b' = step (brain (ds ! j))
            \<and> length (directions b') = length (directions (brain (ds ! j)))" by simp
      then show ?thesis by blast
    qed
  qed
  with len show ?case by simp
qed

lemma Brain_init_frame:
  "Brain_init n gs = Inr b \<Longrightarrow> length (directions b) = n \<and> step b = 0"
  by (auto simp add: Brain_init_def randomize_def split: sum.splits dest: randomize_loop_Inr)

lemma init_loop_dots:
  "init_loop is gss = Inr ds \<Longrightarrow>
     \<forall>d\<in>set ds. \<exists>b. d = Dot_new b \<and> length (directions b) = 400 \<and> step b = 0"
proof (induction "is" arbitrary: ds)
  case Nil
  then show ?case by simp
next
  case (Cons i "is")
  from Cons.prems obtain d ds' where d: "Dot_init (gss i) = Inr d"
    and ds': "init_loop is gss = Inr ds'" and eq: "ds = d # ds'"
    by (auto split: sum.splits)
  from d obtain b where "Brain_init 400 (gss i) = Inr b" "d = Dot_new b"
    by (auto simp add: Dot_init_def split: sum.splits)
  with Brain_init_frame [of 400 "gss i" b]
  have "\<exists>b. d = Dot_new b \<and> length (directions b) = 400 \<and> step b = 0" by blast
  with Cons.IH [OF ds'] eq show ?case by simp
qed

lemma newborn_on_track:
  assumes "core d = Dot_new \<lparr>directions = directions (brain d), step = 0\<rparr>"
  shows "on_track m d" and "far_or_reached d"
proof -
  from assms have "core d = (tick m ^^ 0) (Dot_new \<lparr>directions = directions (brain d), step = 0\<rparr>)"
    by simp
  then show "on_track m d" unfolding on_track_def by blast
  have "pos (core d) = pos d" by (simp add: core_def)
  with assms have "pos d = (height - 125, width * 0.95)" by (simp add: Dot_new_def)
  then show "far_or_reached d"
    by (simp add: far_or_reached_def goal_def height_def width_def power2_eq_square)
qed

lemma Dot_new_newborn:
  "step b = 0 \<Longrightarrow> core ((Dot_new b)\<lparr>is_best := e\<rparr>)
     = Dot_new \<lparr>directions = directions (brain ((Dot_new b)\<lparr>is_best := e\<rparr>)), step = 0\<rparr>"
  by (simp add: core_def Dot_new_def)

lemma run_inv_start:
  assumes "Population_init n gss = Inr p"
  shows "run_inv p" and "min_step p = 400"
proof -
  from assms obtain ds where ds: "init_loop [0..<n] gss = Inr ds"
    and p: "p = \<lparr>fitness_sum = 0, gen = 1, best_dot = 0, min_step = 400, dots = ds\<rparr>"
    by (auto simp add: Population_init_def split: sum.splits)
  from p show "min_step p = 400" by simp
  have "length (directions (brain d)) = 400 \<and> step (brain d) \<le> 400
          \<and> on_track (min_step p) d \<and> far_or_reached d" if "d \<in> set (dots p)" for d
  proof -
    from that p init_loop_dots [OF ds] obtain b where
      b: "d = Dot_new b" "length (directions b) = 400" "step b = 0" by auto
    from b(3) have "core ((Dot_new b)\<lparr>is_best := False\<rparr>)
     = Dot_new \<lparr>directions = directions (brain ((Dot_new b)\<lparr>is_best := False\<rparr>)), step = 0\<rparr>"
      by (rule Dot_new_newborn)
    moreover have "(Dot_new b)\<lparr>is_best := False\<rparr> = Dot_new b" by (simp add: Dot_new_def)
    ultimately have "core d = Dot_new \<lparr>directions = directions (brain d), step = 0\<rparr>"
      using b(1) by simp
    from newborn_on_track [OF this] b show ?thesis by (simp add: Dot_new_def)
  qed
  with p show "run_inv p" by (simp add: run_inv_def)
qed

lemma run_inv_tick:
  assumes "run_inv p"
  shows "run_inv (fst (Population_update p g))"
    and "min_step (fst (Population_update p g)) = min_step p"
proof -
  let ?m = "min_step p"
  have upd: "fst (Population_update p g) = p\<lparr>dots := map (tick ?m) (dots p)\<rparr>"
    using update_loop_map [of ?m "dots p" g] by (simp add: Population_update_def split_beta)
  then show "min_step (fst (Population_update p g)) = ?m" by simp
  have each: "length (directions (brain (tick ?m d))) = 400 \<and> step (brain (tick ?m d)) \<le> 400
          \<and> on_track ?m (tick ?m d) \<and> far_or_reached (tick ?m d)" if "d \<in> set (dots p)" for d
  proof -
    from assms that have d: "length (directions (brain d)) = 400" "step (brain d) \<le> 400"
      "on_track ?m d" "far_or_reached d" by (simp_all add: run_inv_def)
    from d(3) obtain k where
      k: "core d = (tick ?m ^^ k) (Dot_new \<lparr>directions = directions (brain d), step = 0\<rparr>)"
      by (auto simp add: on_track_def)
    have "core (tick ?m d) = tick ?m (core d)" by (simp add: tick_core)
    also have "\<dots> = (tick ?m ^^ Suc k) (Dot_new \<lparr>directions = directions (brain d), step = 0\<rparr>)"
      using k by simp
    finally have "on_track ?m (tick ?m d)"
      unfolding on_track_def by (auto simp add: tick_frame simp del: funpow.simps)
    with d tick_frame(5) [of d ?m] tick_far_or_reached [OF d(4), of ?m] show ?thesis
      by (simp add: tick_frame)
  qed
  have first: "?m = 400 \<or> (map (tick ?m) (dots p) \<noteq> []
      \<and> reaches_in_budget ?m (map (tick ?m) (dots p) ! 0))"
  proof (cases "?m = 400")
    case True
    then show ?thesis by simp
  next
    case False
    with assms have ne: "dots p \<noteq> []" and r: "reaches_in_budget ?m (dots p ! 0)"
      by (simp_all add: run_inv_def)
    from ne have "map (tick ?m) (dots p) ! 0 = tick ?m (dots p ! 0)" by simp
    with reaches_tick [OF r] ne show ?thesis by simp
  qed
  from each first upd show "run_inv (fst (Population_update p g))"
    by (simp add: run_inv_def)
qed

paragraph \<open>The invariant across the genetic step\<close>

lemma fewer_steps_fitter:
  fixes s m :: nat
  assumes "s \<noteq> 0" and "m \<noteq> 0"
    and "1 / 16 + 1000 / (real m)\<^sup>2 \<le> 1 / 16 + 1000 / (real s)\<^sup>2"
  shows "s \<le> m"
proof (rule ccontr)
  assume "\<not> s \<le> m"
  then have "real m < real s" by simp
  then have "(real m)\<^sup>2 < (real s)\<^sup>2" by (intro power_strict_mono) simp_all
  moreover from assms have "0 < (real m)\<^sup>2 * (real s)\<^sup>2" by simp
  ultimately have "1000 / (real s)\<^sup>2 < 1000 / (real m)\<^sup>2"
    by (intro divide_strict_left_mono) (simp_all add: mult.commute)
  with assms(3) show False by simp
qed

lemma select_loop_mem: "select_loop ds r s = Some d \<Longrightarrow> d \<in> set ds"
  by (induction ds arbitrary: s) (auto split: if_splits)

lemma genetic_step:
  assumes inv: "run_inv p" and dead: "all_dots_dead p"
    and cf: "Population_calculate_fitness p = Inr p1"
    and ns: "natural_selection p1 us = Inr p2"
    and mb: "mutate_babies p2 rss = Inr p3"
  shows "run_inv p3" and "min_step p3 \<le> min_step p"
    and "min_step p3 \<noteq> min_step p \<Longrightarrow>
           reached_goal (dots p1 ! best_loop (dots p1) 0 0 0)
           \<and> min_step p3 = step (brain (dots p1 ! best_loop (dots p1) 0 0 0))"
proof -
  let ?m = "min_step p" and ?ds = "dots p" and ?ds1 = "dots p1"
  let ?b = "best_loop ?ds1 0 0 0"
  \<comment> \<open>the fitness pass\<close>
  from cf obtain ds1 where l: "calculate_fitness_loop ?ds = Inr ds1" and p1: "p1 = p\<lparr>dots := ds1\<rparr>"
    by (auto simp add: Population_calculate_fitness_def split: sum.splits)
  from calculate_fitness_loop_Inr [OF l] p1 have len1: "length ?ds1 = length ?ds"
    and fit: "\<And>i. i < length ?ds \<Longrightarrow> Dot_calculate_fitness (?ds ! i) = Inr (?ds1 ! i)"
    by simp_all
  from p1 have m1: "min_step p1 = ?m" by simp
  have same: "?ds1 ! i = (?ds ! i)\<lparr>fitness := fitness (?ds1 ! i)\<rparr>" if "i < length ?ds" for i
    using Dot_calculate_fitness_Inr(1) [OF fit [OF that]] .
  have same_fields: "reached_goal (?ds1 ! i) = reached_goal (?ds ! i)"
    "brain (?ds1 ! i) = brain (?ds ! i)" "core (?ds1 ! i) = core (?ds ! i)"
    if "i < length ?ds" for i
  proof -
    from same [OF that] obtain f where f: "?ds1 ! i = (?ds ! i)\<lparr>fitness := f\<rparr>" by blast
    then show "reached_goal (?ds1 ! i) = reached_goal (?ds ! i)"
      "brain (?ds1 ! i) = brain (?ds ! i)" "core (?ds1 ! i) = core (?ds ! i)"
      by (simp_all add: core_def)
  qed
  \<comment> \<open>selection\<close>
  from natural_selection_spec [OF ns] obtain q bs where
    q: "set_best_dot p1 = Inr q" and
    bs: "babies_loop [1..<length ?ds1] (calculate_fitness_sum q) us = Inr bs" and
    p2: "p2 = (calculate_fitness_sum q)\<lparr>dots := (get_baby (?ds1 ! best_dot q))\<lparr>is_best := True\<rparr> # bs,
                gen := gen p1 + 1\<rparr>" by blast
  note fr = set_best_dot_frame [OF q]
  from fr have bq: "best_dot q = ?b" and blt: "?b < length ?ds1" by simp_all
  from blt len1 have blt': "?b < length ?ds" by simp
  from blt have ne1: "?ds1 \<noteq> []" by auto
  with len1 have ne: "?ds \<noteq> []" by auto
  let ?B = "?ds ! ?b"
  from blt' have Bin: "?B \<in> set ?ds" by simp
  have m2: "min_step p2 = (if reached_goal ?B then step (brain ?B) else ?m)"
    using p2 fr m1 same_fields [OF blt'] by (simp add: calculate_fitness_sum_def)
  let ?elite = "(get_baby (?ds1 ! ?b))\<lparr>is_best := True\<rparr>"
  from p2 bq have d2: "dots p2 = ?elite # bs" by (simp add: calculate_fitness_sum_def)
  \<comment> \<open>mutation\<close>
  from mb obtain ds3 where l3: "mutate_babies_loop [1..<length (dots p2)] (dots p2) rss = Inr ds3"
    and p3: "p3 = p2\<lparr>dots := ds3\<rparr>"
    by (auto simp add: mutate_babies_def split: sum.splits)
  from p3 m2 have m3: "min_step p3 = (if reached_goal ?B then step (brain ?B) else ?m)" by simp
  have first3: "ds3 ! 0 = ?elite"
  proof -
    from mutate_babies_loop_frame [OF l3]
    have "\<forall>j<length (dots p2). j \<notin> set [1..<length (dots p2)] \<longrightarrow> ds3 ! j = dots p2 ! j"
      by (rule conjunct2)
    moreover have "0 < length (dots p2)" using d2 by simp
    moreover have "0 \<notin> set [1..<length (dots p2)]" by auto
    ultimately have "ds3 ! 0 = dots p2 ! 0" by blast
    with d2 show ?thesis by simp
  qed
  from mutate_babies_loop_brains [OF l3] have len3: "length ds3 = length (dots p2)"
    and br3: "\<And>j. j < length (dots p2) \<Longrightarrow> \<exists>b. ds3 ! j = (dots p2 ! j)\<lparr>brain := b\<rparr>
        \<and> step b = step (brain (dots p2 ! j))
        \<and> length (directions b) = length (directions (brain (dots p2 ! j)))" by simp_all
  \<comment> \<open>what the invariant says about the old dots\<close>
  from inv have old: "\<And>d. d \<in> set ?ds \<Longrightarrow> length (directions (brain d)) = 400
      \<and> step (brain d) \<le> 400 \<and> on_track ?m d \<and> far_or_reached d"
    and lead: "?m = 400 \<or> reaches_in_budget ?m (?ds ! 0)"
    by (auto simp add: run_inv_def)
  from dead have ended: "\<And>d. d \<in> set ?ds \<Longrightarrow> dead d \<or> reached_goal d"
    by (simp add: all_dots_dead_def all_dead_loop_iff)
  have old1: "length (directions (brain d)) = 400" if "d \<in> set ?ds1" for d
  proof -
    from that obtain i where i: "i < length ?ds1" "d = ?ds1 ! i" by (auto simp add: in_set_conv_nth)
    with len1 same_fields(2) [of i] old [of "?ds ! i"] show ?thesis by simp
  qed
  \<comment> \<open>every dot of the new swarm is newborn\<close>
  have baby: "core ((get_baby d)\<lparr>is_best := e\<rparr>)
      = Dot_new \<lparr>directions = directions (brain ((get_baby d)\<lparr>is_best := e\<rparr>)), step = 0\<rparr>
      \<and> length (directions (brain ((get_baby d)\<lparr>is_best := e\<rparr>))) = length (directions (brain d))
      \<and> step (brain ((get_baby d)\<lparr>is_best := e\<rparr>)) = 0" for d e
    by (simp add: get_baby_def clone_def core_def Dot_new_def)
  have new2: "core d = Dot_new \<lparr>directions = directions (brain d), step = 0\<rparr>
      \<and> length (directions (brain d)) = 400 \<and> step (brain d) = 0"
    if "d \<in> set (dots p2)" for d
  proof (cases "d = ?elite")
    case True
    from blt have "?ds1 ! ?b \<in> set ?ds1" by simp
    from old1 [OF this] baby [where d = "?ds1 ! ?b" and e = True] True show ?thesis by simp
  next
    case False
    with that d2 have "d \<in> set bs" by simp
    then obtain k where k: "k < length bs" "d = bs ! k" by (auto simp add: in_set_conv_nth)
    from babies_loop_spec [OF bs] k obtain parent where
      par: "select_parent (calculate_fitness_sum q) (us ([1..<length ?ds1] ! k)) = Some parent"
      and d: "d = get_baby parent" by auto
    from par fr have "parent \<in> set ?ds1"
      by (auto simp add: select_parent_def calculate_fitness_sum_def dest: select_loop_mem)
    from old1 [OF this] baby [where d = parent and e = False] d show ?thesis
      by (simp add: get_baby_def Dot_new_def)
  qed
  have new3: "core d = Dot_new \<lparr>directions = directions (brain d), step = 0\<rparr>
      \<and> length (directions (brain d)) = 400 \<and> step (brain d) = 0"
    if "d \<in> set ds3" for d
  proof -
    from that len3 obtain j where j: "j < length (dots p2)" "d = ds3 ! j"
      by (auto simp add: in_set_conv_nth)
    from br3 [OF j(1)] j(2) obtain b where b: "d = (dots p2 ! j)\<lparr>brain := b\<rparr>"
      "step b = step (brain (dots p2 ! j))"
      "length (directions b) = length (directions (brain (dots p2 ! j)))" by auto
    from j(1) have "dots p2 ! j \<in> set (dots p2)" by simp
    note n = new2 [OF this]
    have "core d = (core (dots p2 ! j))\<lparr>brain := b\<rparr>" using b(1) by (simp add: core_def)
    also have "\<dots> = Dot_new b" using n by (simp add: Dot_new_def)
    also have "b = \<lparr>directions = directions b, step = 0\<rparr>" using b(2) n by simp
    finally have "core d = Dot_new \<lparr>directions = directions b, step = 0\<rparr>" .
    with b n show ?thesis by simp
  qed
  \<comment> \<open>the dot in slot 0 of the old swarm, when the budget was set by an earlier elite\<close>
  have leader: "reached_goal (?ds ! 0) \<and> step (brain (?ds ! 0)) = ?m \<and> ?m \<noteq> 0
      \<and> fitness (?ds1 ! 0) = 1 / 16 + 1000 / (real ?m)\<^sup>2
      \<and> fitness (?ds1 ! 0) \<le> fitness (?ds1 ! ?b) \<and> 1 / 16 \<le> fitness (?ds1 ! 0)"
    if "?m \<noteq> 400"
  proof -
    from that lead have r: "reaches_in_budget ?m (?ds ! 0)" by simp
    from ne have in0: "?ds ! 0 \<in> set ?ds" and lt0: "0 < length ?ds" by simp_all
    from reaches_terminal [OF ended [OF in0] r]
    have r0: "reached_goal (?ds ! 0)" and s0: "step (brain (?ds ! 0)) = ?m" by simp_all
    from Dot_calculate_fitness_Inr(2) [OF fit [OF lt0] r0] s0
    have nz: "?m \<noteq> 0" and f0: "fitness (?ds1 ! 0) = 1 / 16 + 1000 / (real ?m)\<^sup>2" by simp_all
    have "0 \<le> 1000 / (real ?m)\<^sup>2" by simp
    with f0 have big: "1 / 16 \<le> fitness (?ds1 ! 0)" by linarith
    then have pos: "0 < fitness (?ds1 ! 0)" by linarith
    from best_loop_spec [OF ne1] lt0 len1
    have "fitness (?ds1 ! 0) \<le> max 0 (fitness (?ds1 ! ?b))" by simp
    with pos have "fitness (?ds1 ! 0) \<le> fitness (?ds1 ! ?b)" by (simp add: max_def split: if_splits)
    with r0 s0 nz f0 big show ?thesis by simp
  qed
  \<comment> \<open>the budget does not grow\<close>
  have le: "step (brain ?B) \<le> ?m" if rB: "reached_goal ?B"
  proof (cases "?m = 400")
    case True
    with old [OF Bin] show ?thesis by simp
  next
    case False
    from Dot_calculate_fitness_Inr(2) [OF fit [OF blt'] rB]
    have nz: "step (brain ?B) \<noteq> 0"
      and fB: "fitness (?ds1 ! ?b) = 1 / 16 + 1000 / (real (step (brain ?B)))\<^sup>2" by simp_all
    from leader [OF False] fB
    have "1 / 16 + 1000 / (real ?m)\<^sup>2 \<le> 1 / 16 + 1000 / (real (step (brain ?B)))\<^sup>2"
      and "?m \<noteq> 0" by simp_all
    with nz show ?thesis by (intro fewer_steps_fitter)
  qed
  with m3 show "min_step p3 \<le> ?m" by simp
  from m3 same_fields [OF blt'] show "min_step p3 \<noteq> min_step p \<Longrightarrow>
           reached_goal (?ds1 ! ?b) \<and> min_step p3 = step (brain (?ds1 ! ?b))"
    by (simp split: if_splits)
  \<comment> \<open>the new elite reaches the goal within the new budget\<close>
  have elite: "min_step p3 = 400 \<or> reaches_in_budget (min_step p3) ?elite"
  proof (cases "reached_goal ?B")
    case True
    let ?s = "step (brain ?B)"
    let ?x = "Dot_new \<lparr>directions = directions (brain ?B), step = 0\<rparr>"
    from old [OF Bin] obtain k where k: "core ?B = (tick ?m ^^ k) ?x"
      by (auto simp add: on_track_def)
    have "reached_goal ((tick ?m ^^ k) ?x)" "step (brain ((tick ?m ^^ k) ?x)) = ?s"
      using k [symmetric] True by (simp_all add: core_def)
    moreover have "\<not> dead ?x" "\<not> reached_goal ?x" by (simp_all add: Dot_new_def)
    ultimately have "\<exists>K. reached_goal ((tick ?s ^^ K) ?x) \<and> step (brain ((tick ?s ^^ K) ?x)) = ?s"
      by (intro replay [where m = ?m and k = k])
    then have "reaches_in_budget ?s ?x" by (simp add: reaches_in_budget_def)
    moreover have "core ?elite = ?x"
      using same_fields(2) [OF blt'] by (simp add: get_baby_def clone_def core_def Dot_new_def)
    ultimately have "reaches_in_budget ?s ?elite" using reaches_core [of ?s ?elite] by simp
    with m3 True show ?thesis by simp
  next
    case False
    have "?m = 400"
    proof (rule ccontr)
      assume n: "?m \<noteq> 400"
      from Dot_calculate_fitness_Inr(3) [OF fit [OF blt'] False]
      have fB: "fitness (?ds1 ! ?b)
          = 1 / ((fst goal - fst (pos ?B))\<^sup>2 + (snd goal - snd (pos ?B))\<^sup>2)" .
      from old [OF Bin] False
      have "324 \<le> (fst goal - fst (pos ?B))\<^sup>2 + (snd goal - snd (pos ?B))\<^sup>2"
        by (simp add: far_or_reached_def)
      then have "1 / ((fst goal - fst (pos ?B))\<^sup>2 + (snd goal - snd (pos ?B))\<^sup>2) \<le> 1 / 324"
        by (intro divide_left_mono) simp_all
      with fB have "fitness (?ds1 ! ?b) \<le> 1 / 324" by simp
      moreover from leader [OF n] have "1 / 16 \<le> fitness (?ds1 ! 0)"
        and "fitness (?ds1 ! 0) \<le> fitness (?ds1 ! ?b)" by simp_all
      ultimately show False by linarith
    qed
    with m3 False show ?thesis by simp
  qed
  \<comment> \<open>the invariant of the new swarm\<close>
  have "length (directions (brain d)) = 400 \<and> step (brain d) \<le> 400
      \<and> on_track (min_step p3) d \<and> far_or_reached d" if "d \<in> set (dots p3)" for d
  proof -
    from that p3 have "d \<in> set ds3" by simp
    from new3 [OF this] have c: "core d = Dot_new \<lparr>directions = directions (brain d), step = 0\<rparr>"
      and l: "length (directions (brain d)) = 400" and s: "step (brain d) = 0" by simp_all
    from newborn_on_track [OF c] l s show ?thesis by simp
  qed
  moreover have "dots p3 \<noteq> []" using p3 len3 d2 by auto
  moreover have "dots p3 ! 0 = ?elite" using p3 first3 by simp
  ultimately show "run_inv p3" using elite by (simp add: run_inv_def)
qed

lemma main_loop_body_cases:
  assumes "main_loop_body s us rss = Inr s'"
  obtains (tick) "\<not> all_dots_dead (fst s)" and "s' = Population_update (fst s) (snd s)"
  | (genetic) p1 p2 where "all_dots_dead (fst s)"
      and "Population_calculate_fitness (fst s) = Inr p1"
      and "natural_selection p1 us = Inr p2" and "mutate_babies p2 rss = Inr (fst s')"
  using assms
  by (cases s) (auto simp add: main_loop_body_def split: if_splits sum.splits)

lemma reachable_run_inv: "reachable s \<Longrightarrow> run_inv (fst s)"
proof (induction rule: reachable.induct)
  case (start n gss p)
  then show ?case by (simp add: run_inv_start)
next
  case (iter s us rss s')
  from iter.hyps(2) show ?case
  proof (cases rule: main_loop_body_cases)
    case tick
    with run_inv_tick(1) [OF iter.IH, of "snd s"] show ?thesis by simp
  next
    case (genetic p1 p2)
    from genetic_step(1) [OF iter.IH genetic] show ?thesis .
  qed
qed

lemma main_loop_body_budget:
  assumes "reachable s" and "main_loop_body s us rss = Inr s'"
  shows "min_step (fst s') \<le> min_step (fst s)"
    and "min_step (fst s') \<noteq> min_step (fst s) \<Longrightarrow>
           all_dots_dead (fst s)
           \<and> (\<exists>p1. Population_calculate_fitness (fst s) = Inr p1
                 \<and> reached_goal (dots p1 ! best_loop (dots p1) 0 0 0)
                 \<and> min_step (fst s') = step (brain (dots p1 ! best_loop (dots p1) 0 0 0)))"
proof -
  note inv = reachable_run_inv [OF assms(1)]
  from assms(2) show "min_step (fst s') \<le> min_step (fst s)"
  proof (cases rule: main_loop_body_cases)
    case tick
    with run_inv_tick(2) [OF inv, of "snd s"] show ?thesis by simp
  next
    case (genetic p1 p2)
    from genetic_step(2) [OF inv genetic] show ?thesis .
  qed
  assume ne: "min_step (fst s') \<noteq> min_step (fst s)"
  from assms(2) show "all_dots_dead (fst s)
           \<and> (\<exists>p1. Population_calculate_fitness (fst s) = Inr p1
                 \<and> reached_goal (dots p1 ! best_loop (dots p1) 0 0 0)
                 \<and> min_step (fst s') = step (brain (dots p1 ! best_loop (dots p1) 0 0 0)))"
  proof (cases rule: main_loop_body_cases)
    case tick
    with run_inv_tick(2) [OF inv, of "snd s"] ne show ?thesis by simp
  next
    case (genetic p1 p2)
    from genetic_step(3) [OF inv genetic ne] genetic(1,2) show ?thesis by blast
  qed
qed

lemma reachable_budget_bound: "reachable s \<Longrightarrow> min_step (fst s) \<le> 400"
proof (induction rule: reachable.induct)
  case (start n gss p)
  then show ?case by (simp add: run_inv_start)
next
  case (iter s us rss s')
  from main_loop_body_budget(1) [OF iter.hyps(1,2)] iter.IH show ?case by simp
qed

lemma Population_init_genomes:
  assumes "Population_init n gss = Inr p"
  shows "min_step p = 400 \<and> (\<forall>d\<in>set (dots p). length (directions (brain d)) = min_step p)"
proof -
  from run_inv_start [OF assms] show ?thesis by (simp add: run_inv_def)
qed

text \<open>
  C8. \<^verbatim>\<open>Population.__init__\<close> sets \<^verbatim>\<open>min_step\<close> to 400, the length of every brain.
  In every state that a run of \<^verbatim>\<open>main\<close> reaches \<^verbatim>\<open>min_step\<close> is at most 400, and
  a pass of the main loop never raises it; it changes only in the genetic step, when the
  best dot has reached the goal, and then to the step count of that dot. The reason is
  that the unchanged copy of the last best dot runs again in slot 0, reaches the goal
  after the same number of steps, and a dot that needs more steps has a smaller fitness.
\<close>

theorem min_step_never_increases:
  "(Population_init n gss = Inr p0 \<longrightarrow>
      min_step p0 = 400 \<and> (\<forall>d\<in>set (dots p0). length (directions (brain d)) = min_step p0))
   \<and> (reachable s \<longrightarrow> min_step (fst s) \<le> 400)
   \<and> (reachable s \<and> main_loop_body s us rss = Inr s' \<longrightarrow>
        min_step (fst s') \<le> min_step (fst s)
        \<and> (min_step (fst s') \<noteq> min_step (fst s) \<longrightarrow>
             all_dots_dead (fst s)
             \<and> (\<exists>p1. Population_calculate_fitness (fst s) = Inr p1
                   \<and> reached_goal (dots p1 ! best_loop (dots p1) 0 0 0)
                   \<and> min_step (fst s') = step (brain (dots p1 ! best_loop (dots p1) 0 0 0)))))"
  using Population_init_genomes [of n gss p0] reachable_budget_bound [of s]
    main_loop_body_budget [of s us rss s']
  by blast

paragraph \<open>A run in which the budget drops from 400 to 117\<close>

lemma pass_route_free:
  assumes "k < 400"
    and "(fst v + fst (route_draws k))\<^sup>2 + (snd v + snd (route_draws k))\<^sup>2 \<le> 225"
    and "2 \<le> fst p + (fst v + fst (route_draws k))" and "fst p + (fst v + fst (route_draws k)) \<le> 798"
    and "2 \<le> snd p + (snd v + snd (route_draws k))" and "snd p + (snd v + snd (route_draws k)) \<le> 1598"
    and "400 \<le> (20 - (fst p + (fst v + fst (route_draws k))))\<^sup>2
             + (800 - (snd p + (snd v + snd (route_draws k))))\<^sup>2"
    and "\<not> inside rect_1 (vadd p (vadd v (route_draws k)))"
    and "\<not> inside rect_2 (vadd p (vadd v (route_draws k)))"
  shows "pass (route_swarm (route_dot k p v a False), g) =
     (route_swarm (route_dot (k + 1) (vadd p (vadd v (route_draws k))) (vadd v (route_draws k))
        (route_draws k) False), g)"
  using assms
  by (simp add: pass_def Population_update_def Dot_update_def move_def route_swarm_def
      route_dot_def Let_def split_beta magnitude_gt_iff magnitude_lt_iff dot_max_velocity_def
      height_def width_def goal_def vsub_def vadd_def not_less)

lemma funpow_numeral_step: "(f ^^ numeral n) x = f ((f ^^ pred_numeral n) x)"
  by (simp add: numeral_eq_Suc)

lemma route_116:
  "(pass ^^ 116) (route_swarm (route_dot 0 (675, 1520) (0, 0) (0, 0) False), no_counts)
   = (route_swarm (route_dot 116 (48, 799) (- 14, 0) (1, 0) False), no_counts)"
  by (simp add: funpow_numeral_step pass_route_free route_draws_def vadd_def inside_def
      rect_1_def rect_2_def width_def) (simp add: eval_nat_numeral)

lemma route_117:
  "pass (route_swarm (route_dot 116 (48, 799) (- 14, 0) (1, 0) False), no_counts)
   = (route_swarm (route_dot 117 (33, 799) (- 15, 0) (- 1, 0) True), \<lparr>dead_count = 0, goal_count = 1\<rparr>)"
  by (simp add: pass_def Population_update_def Dot_update_def move_def route_swarm_def
      route_dot_def Let_def split_beta magnitude_gt_iff magnitude_lt_iff dot_max_velocity_def
      height_def width_def goal_def vsub_def vadd_def no_counts_def route_draws_def)

lemma all_dots_dead_pass: "all_dots_dead (fst s) \<Longrightarrow> all_dots_dead (fst (pass s))"
proof -
  assume a: "all_dots_dead (fst s)"
  have "fst (pass s) = (fst s)\<lparr>dots := map (tick (min_step (fst s))) (dots (fst s))\<rparr>"
    using update_loop_map [of "min_step (fst s)" "dots (fst s)" "snd s"]
    by (simp add: pass_def Population_update_def split_beta)
  moreover have "dead (tick m d) \<or> reached_goal (tick m d)" if "dead d \<or> reached_goal d" for m d
    using tick_terminal [OF that, of m] that by auto
  ultimately show ?thesis using a by (auto simp add: all_dots_dead_def all_dead_loop_iff)
qed

lemma active_before:
  "\<not> all_dots_dead (fst ((pass ^^ k) s)) \<Longrightarrow> j \<le> k \<Longrightarrow> \<not> all_dots_dead (fst ((pass ^^ j) s))"
proof (induction k)
  case 0
  then show ?case by simp
next
  case (Suc k)
  show ?case
  proof (cases "j = Suc k")
    case True
    with Suc.prems show ?thesis by simp
  next
    case False
    with Suc.prems have j: "j \<le> k" by simp
    have "\<not> all_dots_dead (fst ((pass ^^ k) s))"
      using Suc.prems(1) all_dots_dead_pass [of "(pass ^^ k) s"] by auto
    from Suc.IH [OF this j] show ?thesis .
  qed
qed

lemma main_loop_body_pass:
  "\<not> all_dots_dead (fst s) \<Longrightarrow> main_loop_body s us rss = Inr (pass s)"
  by (cases s) (simp add: main_loop_body_def pass_def)

lemma reachable_passes:
  assumes "reachable s" and "\<not> all_dots_dead (fst ((pass ^^ k) s))"
  shows "j \<le> Suc k \<Longrightarrow> reachable ((pass ^^ j) s)"
proof (induction j)
  case 0
  from assms(1) show ?case by simp
next
  case (Suc j)
  then have "j \<le> k" by simp
  from active_before [OF assms(2) this]
  have "main_loop_body ((pass ^^ j) s) (fixed_draw 0) (fixed_draws no_mutation)
      = Inr (pass ((pass ^^ j) s))" by (rule main_loop_body_pass)
  with Suc have "reachable (pass ((pass ^^ j) s))" by (auto intro: reachable.iter)
  then show ?case by simp
qed

lemma magnitude_route: "magnitude (route_draws i) = 1"
  by (simp add: route_draws_def magnitude_def)

lemma Brain_init_route:
  "Brain_init 400 route_draws = Inr \<lparr>directions = map route_draws [0..<400], step = 0\<rparr>"
proof -
  have nz: "route_draws i \<noteq> (0, 0)" for i
    using magnitude_route [of i] by (auto simp add: magnitude_def)
  then have "\<not> (\<exists>i\<in>set [0..<400]. route_draws i = (0, 0))" by simp
  then have "randomize_loop [0..<400] (replicate 400 (0, 0)) route_draws \<noteq> Inl e" for e
    by (simp only: randomize_loop_Inl simp_thms)
  then obtain ds where ds: "randomize_loop [0..<400] (replicate 400 (0, 0)) route_draws = Inr ds"
    by (cases "randomize_loop [0..<400] (replicate 400 (0, 0)) route_draws") auto
  from randomize_loop_Inr [OF ds] have "length ds = 400" and "\<forall>j<400. ds ! j = route_draws j"
    by (simp_all add: magnitude_route)
  then have "ds = map route_draws [0..<400]" by (simp add: list_eq_iff_nth_eq)
  with ds show ?thesis by (simp add: Brain_init_def randomize_def)
qed

lemma route_start:
  "Population_init 1 (fixed_draws route_draws)
     = Inr (route_swarm (route_dot 0 (675, 1520) (0, 0) (0, 0) False))"
  by (simp add: Population_init_def Dot_init_def Brain_init_route fixed_draws_def route_swarm_def
      route_dot_def Dot_new_def height_def width_def)

lemma route_reachable:
  "reachable (route_swarm (route_dot 117 (33, 799) (- 15, 0) (- 1, 0) True),
      \<lparr>dead_count = 0, goal_count = 1\<rparr>)"
proof -
  let ?s = "(route_swarm (route_dot 0 (675, 1520) (0, 0) (0, 0) False), no_counts)"
  have r: "reachable ?s" using reachable.start [OF route_start] by (simp add: no_counts_def)
  have "\<not> all_dots_dead (fst ((pass ^^ 116) ?s))"
    by (simp only: route_116 fst_conv) (simp add: all_dots_dead_def route_swarm_def route_dot_def)
  from reachable_passes [OF r this, of "Suc 116", OF le_refl]
  have "reachable (pass ((pass ^^ 116) ?s))"
    by (simp only: funpow.simps o_apply)
  then show ?thesis by (simp only: route_116 route_117)
qed

lemma route_genetic:
  "main_loop_body (route_swarm (route_dot 117 (33, 799) (- 15, 0) (- 1, 0) True),
      \<lparr>dead_count = 0, goal_count = 1\<rparr>) (fixed_draw (1 / 2)) (fixed_draws no_mutation)
   = Inr (next_swarm, no_counts)"
proof -
  let ?d = "route_dot 117 (33, 799) (- 15, 0) (- 1, 0) True"
  have dead: "all_dots_dead (route_swarm ?d)"
    by (simp add: all_dots_dead_def route_swarm_def route_dot_def)
  have cf: "Population_calculate_fitness (route_swarm ?d)
      = Inr (route_swarm (?d\<lparr>fitness := 1 / 16 + 1000 / 117\<^sup>2\<rparr>))"
    by (simp add: Population_calculate_fitness_def Dot_calculate_fitness_def route_swarm_def
        route_dot_def)
  have sb: "set_best_dot (route_swarm (?d\<lparr>fitness := 1 / 16 + 1000 / 117\<^sup>2\<rparr>))
      = Inr ((route_swarm (?d\<lparr>fitness := 1 / 16 + 1000 / 117\<^sup>2\<rparr>))\<lparr>min_step := 117\<rparr>)"
    by (simp add: set_best_dot_def Let_def route_swarm_def route_dot_def)
  have ns: "natural_selection (route_swarm (?d\<lparr>fitness := 1 / 16 + 1000 / 117\<^sup>2\<rparr>))
      (fixed_draw (1 / 2)) = Inr next_swarm"
    unfolding natural_selection_def sb
    by (simp add: calculate_fitness_sum_def route_swarm_def route_dot_def next_swarm_def
        get_baby_def clone_def Let_def)
  have mb: "mutate_babies next_swarm (fixed_draws no_mutation) = Inr next_swarm"
    by (simp add: mutate_babies_def next_swarm_def)
  show ?thesis
    unfolding main_loop_body_def by (simp only: dead cf ns mb split_conv if_True sum.case no_counts_def)
qed

theorem min_step_never_increases_witness:
  "Population_init 1 (fixed_draws route_draws)
     = Inr (route_swarm (route_dot 0 (675, 1520) (0, 0) (0, 0) False))
   \<and> min_step (route_swarm (route_dot 0 (675, 1520) (0, 0) (0, 0) False)) = 400
   \<and> reachable (route_swarm (route_dot 117 (33, 799) (- 15, 0) (- 1, 0) True),
        \<lparr>dead_count = 0, goal_count = 1\<rparr>)
   \<and> main_loop_body (route_swarm (route_dot 117 (33, 799) (- 15, 0) (- 1, 0) True),
        \<lparr>dead_count = 0, goal_count = 1\<rparr>) (fixed_draw (1 / 2)) (fixed_draws no_mutation)
       = Inr (next_swarm, no_counts)
   \<and> min_step (route_swarm (route_dot 117 (33, 799) (- 15, 0) (- 1, 0) True)) = 400
   \<and> min_step next_swarm = 117
   \<and> min_step next_swarm \<le> min_step (route_swarm (route_dot 117 (33, 799) (- 15, 0) (- 1, 0) True))"
proof -
  from min_step_never_increases [of 1 "fixed_draws route_draws"
      "route_swarm (route_dot 0 (675, 1520) (0, 0) (0, 0) False)"
      "(route_swarm (route_dot 117 (33, 799) (- 15, 0) (- 1, 0) True),
        \<lparr>dead_count = 0, goal_count = 1\<rparr>)"
      "fixed_draw (1 / 2)" "fixed_draws no_mutation" "(next_swarm, no_counts)"]
    route_start route_reachable route_genetic
  have "min_step next_swarm \<le> min_step (route_swarm (route_dot 117 (33, 799) (- 15, 0) (- 1, 0) True))"
    by simp
  with route_start route_reachable route_genetic show ?thesis
    by (simp add: route_swarm_def next_swarm_def)
qed

end
